theory Spec2Isabelle
  imports Complex_Main "HOL-Library.AList" "HOL-Library.Multiset"
begin

section \<open>The CME prediction notebook: data model\<close>

text \<open>
  The notebook \<^verbatim>\<open>ccsc_CMEpredict.ipynb\<close> is a sequence of cells run in one Python
  namespace. Three cells carry logic: the prediction cell (a loop over a grid of
  configurations that classifies probabilities and stores the result per configuration),
  the analysis cell (a loop over the stored results that computes ROC statistics and plots
  them) and the training cell. Python exceptions are values of the type \<open>error\<close>;
  a cell that raises returns the state it had reached together with the exception.
  Probabilities are modelled as real numbers, labels as Python integers.
\<close>

datatype error = ValueError | IndexError | NameError | TypeError | OSError

subsection \<open>Configuration cell\<close>

definition mask_value :: int where "mask_value = 0"
definition series_len :: int where "series_len = 20"
definition epochs :: int where "epochs = 20"
definition batch_size :: int where "batch_size = 256"
definition start_feature :: int where "start_feature = 4"

definition time_windows :: "int list" where "time_windows = [12, 36, 60]"
definition rnn_types :: "string list" where "rnn_types = [''gru'', ''lstm'']"
definition cm_grid :: "string list list" where
  "cm_grid = [[''TN'', ''FP''], [''FN'', ''TP'']]"

text \<open>\<^verbatim>\<open>itertools.product(time_windows, rnn_types)\<close>: the last list varies fastest.\<close>

definition grid :: "(int \<times> string) list" where
  "grid = List.product time_windows rnn_types"

subsection \<open>Python strings: \<^verbatim>\<open>str\<close> of an integer, \<^verbatim>\<open>upper\<close>, f-strings\<close>

definition digit_char :: "nat \<Rightarrow> char" where
  "digit_char d = ''0123456789'' ! (d mod 10)"

fun str_nat :: "nat \<Rightarrow> string" where
  "str_nat n = (if n < 10 then [digit_char n] else str_nat (n div 10) @ [digit_char (n mod 10)])"

declare str_nat.simps [simp del]

definition str_int :: "int \<Rightarrow> string" where
  "str_int i = (if i < 0 then CHR ''-'' # str_nat (nat (- i)) else str_nat (nat i))"

text \<open>\<^verbatim>\<open>str.upper()\<close> on ASCII text: the 26 lower-case letters change, nothing else does.\<close>

definition upper_char :: "char \<Rightarrow> char" where
  "upper_char c =
     (case map_of (zip ''abcdefghijklmnopqrstuvwxyz'' ''ABCDEFGHIJKLMNOPQRSTUVWXYZ'') c of
        Some u \<Rightarrow> u
      | None \<Rightarrow> c)"

definition upper :: "string \<Rightarrow> string" where
  "upper s = map upper_char s"

text \<open>\<^verbatim>\<open>f'CMEpredict/{type}-{time_window}-model.h5'\<close>\<close>

definition model_file :: "string \<Rightarrow> int \<Rightarrow> string" where
  "model_file ty time_window =
     ''CMEpredict/'' @ ty @ ''-'' @ str_int time_window @ ''-model.h5''"

text \<open>\<^verbatim>\<open>f'CMEpredict/normalized_testing_{time_window}.csv'\<close>\<close>

definition test_data_file :: "int \<Rightarrow> string" where
  "test_data_file time_window =
     ''CMEpredict/normalized_testing_'' @ str_int time_window @ ''.csv''"

text \<open>The key of the results dictionary, \<^verbatim>\<open>f'{type} {time_window}'\<close>.\<close>

definition results_key :: "string \<Rightarrow> int \<Rightarrow> string" where
  "results_key ty time_window = ty @ '' '' @ str_int time_window"

subsection \<open>Rounding\<close>

text \<open>Rounding to the nearest integer, a tie to the even one.\<close>

definition round_half_even :: "real \<Rightarrow> int" where
  "round_half_even r =
     (let f = \<lfloor>r\<rfloor>; d = r - of_int f
      in if d < 1/2 then f else if d > 1/2 then f + 1 else if even f then f else f + 1)"

text \<open>
  Rounding a real number to single precision (IEEE 754 binary32, nearest, ties to even).
  \<open>float32_scale 253 a (2 ^ 127)\<close> is the largest power of two from \<open>2 ^ 127\<close>
  down to \<open>2 ^ -126\<close> that is at most \<open>a\<close>, and \<open>2 ^ -126\<close> when there
  is none (the subnormal range); the spacing of the single-precision numbers at \<open>a\<close>
  is that power divided by \<open>2 ^ 23\<close>. A magnitude beyond the largest finite number
  rounds to a value beyond every finite single-precision number, which compares with
  them as infinity does.
\<close>

fun float32_scale :: "nat \<Rightarrow> real \<Rightarrow> real \<Rightarrow> real" where
  "float32_scale 0 a pw = pw"
| "float32_scale (Suc n) a pw = (if pw \<le> a then pw else float32_scale n a (pw / 2))"

definition float32_ulp :: "real \<Rightarrow> real" where
  "float32_ulp a = float32_scale 253 a (2 ^ 127) / 2 ^ 23"

definition float32_round :: "real \<Rightarrow> real" where
  "float32_round x =
     (let a = \<bar>x\<bar>;
          ulp = float32_ulp a;
          r = of_int (round_half_even (a / ulp)) * ulp
      in if x < 0 then - r else r)"

subsection \<open>Thresholding\<close>

text \<open>
  \<^verbatim>\<open>bc = [1 if p >= threshold else 0 for p in prob]\<close>. The conditional expression
  of the comprehension is \<open>classify\<close>, the comprehension is \<open>bc\<close>. Each
  \<^verbatim>\<open>p\<close> is a row of the array \<^verbatim>\<open>model.predict\<close> returns, an array of single
  precision, and \<^verbatim>\<open>threshold\<close> is a Python float: NumPy compares them in the
  precision of the array, so the threshold is rounded to single precision first. A
  probability is the exact value of its single-precision number, a threshold the exact
  value of its double.
\<close>

definition classify :: "real \<Rightarrow> real \<Rightarrow> int" where
  "classify p threshold = (if p \<ge> float32_round threshold then 1 else 0)"

definition bc :: "real list \<Rightarrow> real \<Rightarrow> int list" where
  "bc prob threshold = map (\<lambda>p. classify p threshold) prob"

subsection \<open>The confusion matrix\<close>

text \<open>
  \<^verbatim>\<open>confmat = cm(y_test, bc)\<close> calls \<^verbatim>\<open>sklearn.metrics.confusion_matrix\<close> with
  no \<^verbatim>\<open>labels\<close> argument. The library function is not part of the repository; it is
  modelled here as its documentation and source describe it:
  \<^item> inputs of different lengths raise \<^verbatim>\<open>ValueError\<close>;
  \<^item> the labels are the sorted distinct values that occur in \<^verbatim>\<open>y_true\<close> or in
    \<^verbatim>\<open>y_pred\<close> (\<^verbatim>\<open>unique_labels(y_true, y_pred)\<close>);
  \<^item> the result has one row and one column per label, and cell \<open>(i, j)\<close> counts the
    samples whose true label is the \<open>i\<close>-th label and whose predicted label is the
    \<open>j\<close>-th label.
\<close>

definition unique_labels :: "int list \<Rightarrow> int list \<Rightarrow> int list" where
  "unique_labels y_true y_pred = sort (remdups (y_true @ y_pred))"

definition cell_count :: "(int \<times> int) list \<Rightarrow> int \<Rightarrow> int \<Rightarrow> nat" where
  "cell_count pairs t p = length (filter (\<lambda>(a, b). a = t \<and> b = p) pairs)"

definition confusion_matrix :: "int list \<Rightarrow> int list \<Rightarrow> error + nat list list" where
  "confusion_matrix y_true y_pred =
     (if length y_true \<noteq> length y_pred then Inl ValueError
      else let labels = unique_labels y_true y_pred
           in Inr (map (\<lambda>t. map (\<lambda>p. cell_count (zip y_true y_pred) t p) labels) labels))"

text \<open>
  The annotation of the plotted matrix:
  \<^verbatim>\<open>for i in range(2): for j in range(2):
      plt.text(j, i, f'{cm_grid[i][j]} = {confmat[i][j]}', ...)\<close>.
  Reading \<^verbatim>\<open>confmat[i][j]\<close> outside the matrix raises \<^verbatim>\<open>IndexError\<close>.
\<close>

definition cell_text :: "nat list list \<Rightarrow> nat \<Rightarrow> nat \<Rightarrow> error + string" where
  "cell_text confmat i j =
     (if i < length confmat \<and> j < length (confmat ! i)
      then Inr (cm_grid ! i ! j @ '' = '' @ str_nat (confmat ! i ! j))
      else Inl IndexError)"

fun cell_texts_loop :: "nat list list \<Rightarrow> (nat \<times> nat) list \<Rightarrow> error + string list" where
  "cell_texts_loop confmat [] = Inr []"
| "cell_texts_loop confmat ((i, j) # ijs) =
     (case cell_text confmat i j of
        Inl e \<Rightarrow> Inl e
      | Inr s \<Rightarrow> (case cell_texts_loop confmat ijs of
                    Inl e \<Rightarrow> Inl e
                  | Inr ss \<Rightarrow> Inr (s # ss)))"

definition cell_texts :: "nat list list \<Rightarrow> error + string list" where
  "cell_texts confmat = cell_texts_loop confmat (List.product [0, 1] [0, 1])"

subsection \<open>ROC statistics\<close>

text \<open>
  The analysis cell calls \<^verbatim>\<open>roc_auc_score(y_test, bc)\<close> and
  \<^verbatim>\<open>roc_curve(y_test, bc)\<close> of \<^verbatim>\<open>sklearn.metrics\<close>. These are library
  functions, not code of the repository; they are modelled as their source describes them.
  A NumPy float is \<open>Some r\<close> for a finite value and \<open>None\<close> for \<^verbatim>\<open>nan\<close>;
  arithmetic is exact.
\<close>

type_synonym npfloat = "real option"

text \<open>
  \<^verbatim>\<open>_binary_clf_curve\<close>: the samples are sorted by decreasing score (a stable sort
  by increasing score, reversed); at the last sample of every run of equal scores the
  cumulative numbers of false and true positives are recorded with that score.
\<close>

definition desc_score_order :: "bool list \<Rightarrow> real list \<Rightarrow> (real \<times> bool) list" where
  "desc_score_order y_true y_score = rev (sort_key fst (zip y_score y_true))"

fun clf_curve_scan :: "(real \<times> bool) list \<Rightarrow> nat \<Rightarrow> nat \<Rightarrow> (nat \<times> nat \<times> real) list" where
  "clf_curve_scan [] fps tps = []"
| "clf_curve_scan ((s, pos) # rest) fps tps =
     (let tps' = (if pos then tps + 1 else tps);
          fps' = (if pos then fps else fps + 1)
      in (if rest = [] \<or> fst (hd rest) \<noteq> s then [(fps', tps', s)] else [])
         @ clf_curve_scan rest fps' tps')"

definition binary_clf_curve :: "bool list \<Rightarrow> real list \<Rightarrow> (nat \<times> nat \<times> real) list" where
  "binary_clf_curve y_true y_score = clf_curve_scan (desc_score_order y_true y_score) 0 0"

text \<open>
  \<^verbatim>\<open>drop_intermediate=True\<close> (the default): with more than two points, an inner point
  is kept only where the second difference of the false positives or of the true
  positives is not zero.
\<close>

definition second_diff :: "nat \<Rightarrow> nat \<Rightarrow> nat \<Rightarrow> int" where
  "second_diff a b c = int c - 2 * int b + int a"

fun inner_points :: "(nat \<times> nat \<times> real) list \<Rightarrow> (nat \<times> nat \<times> real) list" where
  "inner_points (a # b # c # rest) =
     (if second_diff (fst a) (fst b) (fst c) \<noteq> 0
         \<or> second_diff (fst (snd a)) (fst (snd b)) (fst (snd c)) \<noteq> 0
      then [b] else [])
     @ inner_points (b # c # rest)"
| "inner_points ps = []"

definition drop_intermediate :: "(nat \<times> nat \<times> real) list \<Rightarrow> (nat \<times> nat \<times> real) list" where
  "drop_intermediate ps =
     (if length ps > 2 then hd ps # inner_points ps @ [last ps] else ps)"

text \<open>
  \<^verbatim>\<open>roc_curve\<close>: the labels must be a subset of \<open>{0, 1}\<close> or \<open>{-1, 1}\<close> (the
  positive label is then 1); the point \<open>(0, 0)\<close> is put in front; the counts are divided
  by their last value, and an axis whose last count is 0 is all \<^verbatim>\<open>nan\<close>. The
  threshold put in front is the largest score plus one (later releases of the library put
  infinity there); the notebook discards the thresholds.
\<close>

definition rate :: "nat list \<Rightarrow> npfloat list" where
  "rate counts =
     (if last counts \<le> 0 then map (\<lambda>_. None) counts
      else map (\<lambda>c. Some (real c / real (last counts))) counts)"

definition roc_curve :: "int list \<Rightarrow> real list \<Rightarrow> error + (npfloat list \<times> npfloat list \<times> real list)" where
  "roc_curve y_true y_score =
     (if length y_true \<noteq> length y_score then Inl ValueError
      else if sort (remdups y_true) \<notin> set [[0, 1], [-1, 1], [0], [-1], [1]] then Inl ValueError
      else let ps = drop_intermediate (binary_clf_curve (map (\<lambda>y. y = 1) y_true) y_score);
               fps = 0 # map fst ps;
               tps = 0 # map (fst \<circ> snd) ps;
               thresholds = map (snd \<circ> snd) ps
           in Inr (rate fps, rate tps, (hd thresholds + 1) # thresholds))"

text \<open>
  \<^verbatim>\<open>auc(x, y)\<close>: at least two points; \<^verbatim>\<open>x\<close> must be monotonic; the area is
  the trapezoidal rule \<^verbatim>\<open>np.trapz(y, x)\<close>, negated when \<^verbatim>\<open>x\<close> decreases. A
  comparison with \<^verbatim>\<open>nan\<close> is false, and a sum with a \<^verbatim>\<open>nan\<close> term is
  \<^verbatim>\<open>nan\<close>.
\<close>

fun trapz :: "real list \<Rightarrow> real list \<Rightarrow> real" where
  "trapz (y0 # y1 # ys) (x0 # x1 # xs) =
     (x1 - x0) * (y1 + y0) / 2 + trapz (y1 # ys) (x1 # xs)"
| "trapz ys xs = 0"

definition np_trapz :: "npfloat list \<Rightarrow> npfloat list \<Rightarrow> npfloat" where
  "np_trapz y x =
     (case (those y, those x) of
        (Some ys, Some xs) \<Rightarrow> Some (trapz ys xs)
      | _ \<Rightarrow> None)"

definition np_diff :: "npfloat list \<Rightarrow> npfloat list" where
  "np_diff x =
     map (\<lambda>(b, a). case (b, a) of (Some v, Some u) \<Rightarrow> Some (v - u) | _ \<Rightarrow> None) (zip (tl x) x)"

definition np_lt0 :: "npfloat \<Rightarrow> bool" where
  "np_lt0 d = (case d of Some v \<Rightarrow> v < 0 | None \<Rightarrow> False)"

definition np_le0 :: "npfloat \<Rightarrow> bool" where
  "np_le0 d = (case d of Some v \<Rightarrow> v \<le> 0 | None \<Rightarrow> False)"

definition auc :: "npfloat list \<Rightarrow> npfloat list \<Rightarrow> error + npfloat" where
  "auc x y =
     (if length x \<noteq> length y then Inl ValueError
      else if length x < 2 then Inl ValueError
      else let dx = np_diff x
           in if list_ex np_lt0 dx
              then (if list_all np_le0 dx then Inr (map_option uminus (np_trapz y x))
                    else Inl ValueError)
              else Inr (np_trapz y x))"

text \<open>
  \<^verbatim>\<open>roc_auc_score\<close> for one-dimensional scores: anything but exactly two classes in
  \<^verbatim>\<open>y_true\<close> raises \<^verbatim>\<open>ValueError\<close> (for one class: "Only one class present in
  y_true. ROC AUC score is not defined in that case."); with two classes the larger
  label is the positive one (\<^verbatim>\<open>label_binarize\<close>), and the score is the area under
  the points of \<^verbatim>\<open>roc_curve\<close>.
\<close>

definition roc_auc_score :: "int list \<Rightarrow> real list \<Rightarrow> error + npfloat" where
  "roc_auc_score y_true y_score =
     (let labels = sort (remdups y_true)
      in if length labels \<noteq> 2 then Inl ValueError
         else if length y_true \<noteq> length y_score then Inl ValueError
         else case roc_curve (map (\<lambda>y. if y = labels ! 1 then 1 else 0) y_true) y_score of
                Inl e \<Rightarrow> Inl e
              | Inr (fpr, tpr, thresholds) \<Rightarrow> auc fpr tpr)"

subsection \<open>The legend label\<close>

text \<open>
  \<^verbatim>\<open>'%0.3f' % x\<close>: three digits after the point, the exact value rounded to the
  nearest thousandth, a tie to the even one; \<^verbatim>\<open>nan\<close> prints as \<^verbatim>\<open>nan\<close>.
\<close>

definition fmt_0_3f :: "npfloat \<Rightarrow> string" where
  "fmt_0_3f x =
     (case x of
        None \<Rightarrow> ''nan''
      | Some r \<Rightarrow>
          (let n = nat (round_half_even (\<bar>r\<bar> * 1000))
           in (if r < 0 then ''-'' else []) @ str_nat (n div 1000) @ ''.''
              @ [digit_char (n div 100 mod 10), digit_char (n div 10 mod 10),
                 digit_char (n mod 10)]))"

text \<open>
  The operator \<^verbatim>\<open>fmt % x\<close> with one float argument, as far as the notebook uses it:
  text is copied, \<^verbatim>\<open>%%\<close> is a percent sign, \<^verbatim>\<open>%0.3f\<close> consumes the argument.
  A second conversion, or none, raises \<^verbatim>\<open>TypeError\<close>. The other conversions of
  Python are not modelled: every other use of a percent sign ends in \<^verbatim>\<open>ValueError\<close>
  here, which is what Python answers for an unsupported format character.
\<close>

function percent_format :: "string \<Rightarrow> npfloat option \<Rightarrow> error + string" where
  "percent_format [] arg = (case arg of None \<Rightarrow> Inr [] | Some x \<Rightarrow> Inl TypeError)"
| "percent_format (c # cs) arg =
     (if c \<noteq> CHR ''%'' then map_sum id (\<lambda>out. c # out) (percent_format cs arg)
      else if take 1 cs = ''%'' then map_sum id (\<lambda>out. c # out) (percent_format (drop 1 cs) arg)
      else if take 4 cs = ''0.3f''
           then (case arg of
                   None \<Rightarrow> Inl TypeError
                 | Some x \<Rightarrow> map_sum id (\<lambda>out. fmt_0_3f x @ out) (percent_format (drop 4 cs) None))
           else Inl ValueError)"
  by pat_completeness auto
termination
  by (relation "measure (\<lambda>(fmt, arg). length fmt)") auto

text \<open>\<^verbatim>\<open>f'{name.upper()} Hour (AUROC = %0.3f)' % r_auc\<close>\<close>

definition legend_label :: "string \<Rightarrow> npfloat \<Rightarrow> error + string" where
  "legend_label name r_auc = percent_format (upper name @ '' Hour (AUROC = %0.3f)'') (Some r_auc)"

subsection \<open>External collaborators\<close>

text \<open>
  The helper module \<^verbatim>\<open>CMEpredict\<close> and the Keras models are not in the notebook. The
  cells below take them as parameters: each call either returns or raises. A model has
  type \<open>'m\<close>, a batch of sequences type \<open>'x\<close>; \<^verbatim>\<open>model.predict\<close> returns one
  probability per sample.
\<close>

record ('m, 'x) collaborators =
  get_n_features_thresh :: "string \<Rightarrow> int \<Rightarrow> error + (int \<times> real)"
  load_model :: "string \<Rightarrow> error + 'm"
  load_data :: "string \<Rightarrow> int \<Rightarrow> int \<Rightarrow> int \<Rightarrow> int \<Rightarrow> string \<Rightarrow> int \<Rightarrow> error + ('x \<times> int list \<times> int)"
  predict :: "'m \<Rightarrow> 'x \<Rightarrow> int \<Rightarrow> error + real list"
  compute_class_weight :: "int list \<Rightarrow> error + real list"
  lstm :: "int \<Rightarrow> int \<Rightarrow> error + 'm"
  gru :: "int \<Rightarrow> int \<Rightarrow> error + 'm"
  compile_and_fit :: "'m \<Rightarrow> 'x \<Rightarrow> int list \<Rightarrow> int \<Rightarrow> int \<Rightarrow> real \<times> real \<Rightarrow> error + 'm"
  save :: "'m \<Rightarrow> string \<Rightarrow> error + unit"

subsection \<open>The prediction cell\<close>

text \<open>
  \<^verbatim>\<open>results\<close> is a Python dictionary: an association list in insertion order, where
  assigning to a key that is present replaces its value in place
  (\<^const>\<open>AList.update\<close>). One pass of the loop body is \<open>predict_config\<close>: it returns
  the dictionary and the exception raised, if any. The dictionary is written after the
  confusion matrix is computed and before the matrix is annotated.
\<close>

type_synonym results = "(string \<times> int list \<times> int list) list"

definition predict_config ::
  "('m, 'x) collaborators \<Rightarrow> results \<Rightarrow> int \<times> string \<Rightarrow> results \<times> error option" where
  "predict_config env results cfg =
     (case cfg of (time_window, ty) \<Rightarrow>
     (case get_n_features_thresh env ty time_window of
        Inl e \<Rightarrow> (results, Some e)
      | Inr (n_features, threshold) \<Rightarrow>
     (case load_model env (model_file ty time_window) of
        Inl e \<Rightarrow> (results, Some e)
      | Inr model \<Rightarrow>
     (case load_data env (test_data_file time_window) series_len start_feature n_features
             mask_value ty time_window of
        Inl e \<Rightarrow> (results, Some e)
      | Inr (X_test, y_test, nb_test) \<Rightarrow>
     (case predict env model X_test batch_size of
        Inl e \<Rightarrow> (results, Some e)
      | Inr prob \<Rightarrow>
     (case confusion_matrix y_test (bc prob threshold) of
        Inl e \<Rightarrow> (results, Some e)
      | Inr confmat \<Rightarrow>
          (let results' = AList.update (results_key ty time_window) (y_test, bc prob threshold) results
           in (case cell_texts confmat of
                 Inl e \<Rightarrow> (results', Some e)
               | Inr texts \<Rightarrow> (results', None)))))))))"

fun run_grid ::
  "('m, 'x) collaborators \<Rightarrow> results \<Rightarrow> (int \<times> string) list \<Rightarrow> results \<times> error option" where
  "run_grid env results [] = (results, None)"
| "run_grid env results (cfg # cfgs) =
     (case predict_config env results cfg of
        (results', Some e) \<Rightarrow> (results', Some e)
      | (results', None) \<Rightarrow> run_grid env results' cfgs)"

definition prediction_cell :: "('m, 'x) collaborators \<Rightarrow> results \<times> error option" where
  "prediction_cell env = run_grid env [] grid"

text \<open>The key a configuration of the grid writes.\<close>

definition cfg_key :: "int \<times> string \<Rightarrow> string" where
  "cfg_key cfg = (case cfg of (time_window, ty) \<Rightarrow> results_key ty time_window)"

text \<open>
  What one configuration stores when all its calls return: the labels of its test file
  and the thresholded probabilities of its model.
\<close>

definition config_entry ::
  "('m, 'x) collaborators \<Rightarrow> int \<times> string \<Rightarrow> (int list \<times> int list) option" where
  "config_entry env cfg =
     (case cfg of (time_window, ty) \<Rightarrow>
     (case get_n_features_thresh env ty time_window of
        Inl e \<Rightarrow> None
      | Inr (n_features, threshold) \<Rightarrow>
     (case load_model env (model_file ty time_window) of
        Inl e \<Rightarrow> None
      | Inr model \<Rightarrow>
     (case load_data env (test_data_file time_window) series_len start_feature n_features
             mask_value ty time_window of
        Inl e \<Rightarrow> None
      | Inr (X_test, y_test, nb_test) \<Rightarrow>
     (case predict env model X_test batch_size of
        Inl e \<Rightarrow> None
      | Inr prob \<Rightarrow> Some (y_test, bc prob threshold))))))"

subsection \<open>The analysis cell\<close>

text \<open>
  \<^verbatim>\<open>for name, (y_test, bc) in results.items():\<close> computes the score and the curve of
  one entry and plots a line. The loop stops at the first exception; the lines plotted
  before it stay plotted.
\<close>

record plot_line =
  line_fpr :: "npfloat list"
  line_tpr :: "npfloat list"
  line_label :: string

definition roc_line :: "string \<Rightarrow> int list \<times> int list \<Rightarrow> error + plot_line" where
  "roc_line name entry =
     (case entry of (y_test, preds) \<Rightarrow>
     (case roc_auc_score y_test (map real_of_int preds) of
        Inl e \<Rightarrow> Inl e
      | Inr r_auc \<Rightarrow>
     (case roc_curve y_test (map real_of_int preds) of
        Inl e \<Rightarrow> Inl e
      | Inr (r_fpr, r_tpr, thresholds) \<Rightarrow>
     (case legend_label name r_auc of
        Inl e \<Rightarrow> Inl e
      | Inr label \<Rightarrow> Inr \<lparr>line_fpr = r_fpr, line_tpr = r_tpr, line_label = label\<rparr>))))"

fun analysis_loop :: "results \<Rightarrow> (string \<times> plot_line) list \<Rightarrow> (string \<times> plot_line) list \<times> error option" where
  "analysis_loop [] plotted = (plotted, None)"
| "analysis_loop ((name, entry) # items) plotted =
     (case roc_line name entry of
        Inl e \<Rightarrow> (plotted, Some e)
      | Inr line \<Rightarrow> analysis_loop items (plotted @ [(name, line)]))"

definition analysis_cell :: "results \<Rightarrow> (string \<times> plot_line) list \<times> error option" where
  "analysis_cell results = analysis_loop results []"

text \<open>The metrics a run of the analysis cell computed for a configuration, if any.\<close>

definition computed_metrics :: "results \<Rightarrow> string \<Rightarrow> plot_line option" where
  "computed_metrics results name = map_of (fst (analysis_cell results)) name"

subsection \<open>The ROC sweep over raw probabilities\<close>

text \<open>
  The construction the specification describes: one point (false-positive rate,
  true-positive rate) per distinct probability value, the decision threshold going
  through these values from the largest to the smallest, a sample being predicted
  positive when its probability is at least the threshold.
\<close>

definition count_at :: "int list \<Rightarrow> real list \<Rightarrow> int \<Rightarrow> real \<Rightarrow> nat" where
  "count_at y_true prob label t =
     length (filter (\<lambda>(p, y). p \<ge> t \<and> y = label) (zip prob y_true))"

definition roc_sweep_spec :: "int list \<Rightarrow> real list \<Rightarrow> (real \<times> real) list" where
  "roc_sweep_spec y_true prob =
     map (\<lambda>t. (real (count_at y_true prob 0 t) / real (count_list y_true 0),
               real (count_at y_true prob 1 t) / real (count_list y_true 1)))
         (rev (sort (remdups prob)))"

text \<open>The points the analysis cell plots for a configuration with probabilities \<open>prob\<close>.\<close>

definition config_roc :: "int list \<Rightarrow> real list \<Rightarrow> real \<Rightarrow> error + (npfloat \<times> npfloat) list" where
  "config_roc y_test prob threshold =
     (case roc_curve y_test (map real_of_int (bc prob threshold)) of
        Inl e \<Rightarrow> Inl e
      | Inr (r_fpr, r_tpr, thresholds) \<Rightarrow> Inr (zip r_fpr r_tpr))"

subsection \<open>The training cell\<close>

text \<open>
  \<^verbatim>\<open>if type is 'lstm': ... elif type is 'gru': ...\<close> compares object identities. A
  Python string object is its identity and its characters; \<open>lit\<close> gives the identity
  of the object each string literal of the cell evaluates to. The name
  \<^verbatim>\<open>model\<close> lives in the namespace the cells share: \<open>model0\<close> is its binding when
  the cell starts (\<open>None\<close> when the name is unbound), and the cell returns the binding
  it leaves with the exception raised, if any. \<^verbatim>\<open>model.compile\<close> on an unbound
  name raises \<^verbatim>\<open>NameError\<close>.
\<close>

record pystr =
  obj_id :: nat
  chars :: string

definition py_is :: "pystr \<Rightarrow> nat \<Rightarrow> bool" where
  "py_is s literal_id = (obj_id s = literal_id)"

definition train_data_file :: "int \<Rightarrow> string" where
  "train_data_file time_window =
     ''CMEpredict/normalized_training_'' @ str_int time_window @ ''.csv''"

definition build_model ::
  "('m, 'x) collaborators \<Rightarrow> (string \<Rightarrow> nat) \<Rightarrow> 'm option \<Rightarrow> pystr \<Rightarrow> int \<Rightarrow> error + 'm option" where
  "build_model env lit model0 ty n_features =
     (if py_is ty (lit ''lstm'') then map_sum id Some (lstm env n_features series_len)
      else if py_is ty (lit ''gru'') then map_sum id Some (gru env n_features series_len)
      else Inr model0)"

definition training_cell ::
  "('m, 'x) collaborators \<Rightarrow> (string \<Rightarrow> nat) \<Rightarrow> 'm option \<Rightarrow> pystr \<Rightarrow> int \<Rightarrow> 'm option \<times> error option" where
  "training_cell env lit model0 ty time_window =
     (case get_n_features_thresh env (chars ty) time_window of
        Inl e \<Rightarrow> (model0, Some e)
      | Inr (n_features, thresh) \<Rightarrow>
     (case load_data env (train_data_file time_window) series_len start_feature n_features
             mask_value (chars ty) time_window of
        Inl e \<Rightarrow> (model0, Some e)
      | Inr (X_train, y_train, nb_train) \<Rightarrow>
     (case compute_class_weight env y_train of
        Inl e \<Rightarrow> (model0, Some e)
      | Inr class_weights \<Rightarrow>
      if length class_weights < 2 then (model0, Some IndexError)
      else
     (case build_model env lit model0 ty n_features of
        Inl e \<Rightarrow> (model0, Some e)
      | Inr None \<Rightarrow> (None, Some NameError)
      | Inr (Some model) \<Rightarrow>
     (case compile_and_fit env model X_train y_train epochs batch_size
             (class_weights ! 0, class_weights ! 1) of
        Inl e \<Rightarrow> (Some model, Some e)
      | Inr fitted \<Rightarrow>
     (case save env fitted (model_file (chars ty) time_window) of
        Inl e \<Rightarrow> (Some fitted, Some e)
      | Inr u \<Rightarrow> (Some fitted, None)))))))"

subsection \<open>Collaborators that always return\<close>

text \<open>
  A fixed set of collaborators for concrete runs: every call returns, every test file
  holds the labels \<open>[0, 1, 0, 1]\<close>, every model predicts
  \<open>[0.1, 0.9, 0.6, 0.4]\<close>, every threshold is \<open>0.5\<close>.
\<close>

definition stub_collaborators :: "(unit, unit) collaborators" where
  "stub_collaborators =
     \<lparr>get_n_features_thresh = (\<lambda>ty time_window. Inr (18, 1/2)),
      load_model = (\<lambda>file. Inr ()),
      load_data = (\<lambda>file sl sf nf mv ty time_window. Inr ((), [0, 1, 0, 1], 4)),
      predict = (\<lambda>model x bs. Inr [1/10, 9/10, 6/10, 4/10]),
      compute_class_weight = (\<lambda>y. Inr [1, 1]),
      lstm = (\<lambda>nf sl. Inr ()),
      gru = (\<lambda>nf sl. Inr ()),
      compile_and_fit = (\<lambda>model x y ep bs cw. Inr model),
      save = (\<lambda>model file. Inr ())\<rparr>"

text \<open>The same collaborators, with the model file of \<open>gru\<close>, 36 hours, missing.\<close>

definition missing_model_collaborators :: "(unit, unit) collaborators" where
  "missing_model_collaborators =
     stub_collaborators
       \<lparr>load_model := (\<lambda>file. if file = ''CMEpredict/gru-36-model.h5'' then Inl OSError else Inr ())\<rparr>"

text \<open>
  The same collaborators, with test files that hold two samples of the negative class
  only and models that predict \<open>[0.1, 0.2]\<close>.
\<close>

definition one_label_collaborators :: "(unit, unit) collaborators" where
  "one_label_collaborators =
     stub_collaborators
       \<lparr>load_data := (\<lambda>file sl sf nf mv ty time_window. Inr ((), [0, 0], 2)),
        predict := (\<lambda>model x bs. Inr [1/10, 2/10])\<rparr>"

text \<open>
  Identities for the literals of the training cell: \<^verbatim>\<open>'lstm'\<close> is object 1,
  \<^verbatim>\<open>'gru'\<close> is object 2.
\<close>

definition stub_literals :: "string \<Rightarrow> nat" where
  "stub_literals s = (if s = ''lstm'' then 1 else if s = ''gru'' then 2 else 0)"

section \<open>Thresholding: properties\<close>

lemma length_bc: "length (bc prob threshold) = length prob"
  by (simp add: bc_def)

lemma set_bc: "set (bc prob threshold) \<subseteq> {0, 1}"
  by (auto simp: bc_def classify_def)

subsection \<open>Rounding to single precision\<close>

lemma round_half_even_cases:
  "round_half_even r = \<lfloor>r\<rfloor> \<and> r - of_int \<lfloor>r\<rfloor> \<le> 1/2
   \<or> round_half_even r = \<lfloor>r\<rfloor> + 1 \<and> r - of_int \<lfloor>r\<rfloor> \<ge> 1/2"
  unfolding round_half_even_def Let_def by (simp add: not_less)

lemma round_half_even_nonneg:
  assumes "0 \<le> r"
  shows "0 \<le> round_half_even r"
proof -
  have "0 \<le> \<lfloor>r\<rfloor>" using assms by simp
  with round_half_even_cases [of r] show ?thesis by auto
qed

lemma round_half_even_le:
  assumes "x \<le> of_int k"
  shows "round_half_even x \<le> k"
proof -
  have f: "\<lfloor>x\<rfloor> \<le> k" using assms by (simp add: floor_le_iff)
  from round_half_even_cases [of x] show ?thesis
  proof
    assume "round_half_even x = \<lfloor>x\<rfloor> \<and> x - of_int \<lfloor>x\<rfloor> \<le> 1/2"
    with f show ?thesis by simp
  next
    assume a: "round_half_even x = \<lfloor>x\<rfloor> + 1 \<and> x - of_int \<lfloor>x\<rfloor> \<ge> 1/2"
    have "\<lfloor>x\<rfloor> \<noteq> k"
    proof
      assume "\<lfloor>x\<rfloor> = k"
      with a assms show False by simp
    qed
    with f a show ?thesis by simp
  qed
qed

lemma round_half_even_ge:
  assumes "of_int k \<le> x"
  shows "k \<le> round_half_even x"
proof -
  have "k \<le> \<lfloor>x\<rfloor>" using assms by (simp add: le_floor_iff)
  with round_half_even_cases [of x] show ?thesis by auto
qed

lemma scale_form: "\<exists>j \<le> n. float32_scale n a pw = pw / 2 ^ j"
proof (induction n arbitrary: pw)
  case 0
  show ?case by simp
next
  case (Suc n)
  show ?case
  proof (cases "pw \<le> a")
    case True
    then have "float32_scale (Suc n) a pw = pw / 2 ^ 0" by simp
    then show ?thesis by blast
  next
    case False
    from Suc [of "pw / 2"] obtain j where j: "j \<le> n" "float32_scale n a (pw / 2) = pw / 2 / 2 ^ j"
      by blast
    then have "float32_scale (Suc n) a pw = pw / 2 ^ Suc j" using False by simp
    with j(1) show ?thesis by (metis Suc_le_mono)
  qed
qed

lemma scale_pos: "0 < pw \<Longrightarrow> 0 < float32_scale n a pw"
  using scale_form [of n a pw] by auto

lemma scale_ratio:
  "a \<le> b \<Longrightarrow> \<exists>k. float32_scale n b pw = 2 ^ k * float32_scale n a pw"
proof (induction n arbitrary: pw)
  case 0
  have "float32_scale 0 b pw = 2 ^ 0 * float32_scale 0 a pw" by simp
  then show ?case by blast
next
  case (Suc n)
  show ?case
  proof (cases "pw \<le> a")
    case True
    with Suc.prems have "float32_scale (Suc n) b pw = 2 ^ 0 * float32_scale (Suc n) a pw"
      by simp
    then show ?thesis by blast
  next
    case False
    show ?thesis
    proof (cases "pw \<le> b")
      case True
      from scale_form [of n a "pw / 2"] obtain j where
        "float32_scale n a (pw / 2) = pw / 2 / 2 ^ j" by blast
      then have "float32_scale (Suc n) b pw = 2 ^ Suc j * float32_scale (Suc n) a pw"
        using True False by simp
      then show ?thesis by blast
    next
      case nb: False
      from Suc.IH [OF Suc.prems, of "pw / 2"] False nb show ?thesis by simp
    qed
  qed
qed

lemma scale_le_or_least:
  "float32_scale n a pw \<le> a \<or> float32_scale n a pw = pw / 2 ^ n"
proof (induction n arbitrary: pw)
  case 0
  show ?case by simp
next
  case (Suc n)
  show ?case
  proof (cases "pw \<le> a")
    case True
    then show ?thesis by simp
  next
    case False
    with Suc [of "pw / 2"] show ?thesis by simp
  qed
qed

lemma scale_next:
  "0 < pw \<Longrightarrow> float32_scale n a pw < pw \<Longrightarrow> a < 2 * float32_scale n a pw"
proof (induction n arbitrary: pw)
  case 0
  then show ?case by simp
next
  case (Suc n)
  show ?case
  proof (cases "pw \<le> a")
    case True
    with Suc.prems show ?thesis by simp
  next
    case False
    have eq: "float32_scale (Suc n) a pw = float32_scale n a (pw / 2)"
      using False by simp
    from scale_form [of n a "pw / 2"] obtain j where
      j: "float32_scale n a (pw / 2) = pw / 2 / 2 ^ j" by blast
    have "(1::real) \<le> 2 ^ j" by simp
    then have "pw / 2 / 2 ^ j \<le> pw / 2"
      using Suc.prems(1) by (simp add: field_simps)
    then have le: "float32_scale n a (pw / 2) \<le> pw / 2" using j by simp
    show ?thesis
    proof (cases "float32_scale n a (pw / 2) < pw / 2")
      case True
      have "0 < pw / 2" using Suc.prems(1) by simp
      from Suc.IH [OF this True] show ?thesis by (simp only: eq)
    next
      case nl: False
      with le have "float32_scale n a (pw / 2) = pw / 2" by simp
      with False show ?thesis by (simp add: eq)
    qed
  qed
qed

lemma ulp_pos: "0 < float32_ulp a"
  unfolding float32_ulp_def using scale_pos [of "2 ^ 127" 253 a] by simp

lemma ulp_ratio: "a \<le> b \<Longrightarrow> \<exists>k. float32_ulp b = 2 ^ k * float32_ulp a"
  unfolding float32_ulp_def using scale_ratio [of a b 253 "2 ^ 127"] by auto

lemma float32_round_nonneg:
  "0 \<le> x \<Longrightarrow> float32_round x = of_int (round_half_even (x / float32_ulp x)) * float32_ulp x"
  by (simp add: float32_round_def Let_def)

lemma float32_round_minus: "float32_round (- x) = - float32_round x"
proof (cases "x = 0")
  case True
  have "round_half_even 0 = 0" by (simp add: round_half_even_def)
  with True show ?thesis by (simp add: float32_round_def Let_def)
next
  case False
  then show ?thesis by (cases "x < 0") (simp_all add: float32_round_def Let_def)
qed

lemma float32_round_sign: "0 \<le> x \<Longrightarrow> 0 \<le> float32_round x"
  using ulp_pos [of x] round_half_even_nonneg [of "x / float32_ulp x"]
  by (simp add: float32_round_nonneg)

text \<open>Rounding never passes a single-precision value: from below on the nonnegative side.\<close>

lemma float32_round_below:
  assumes "0 \<le> t" and "t \<le> p" and fp: "float32_round p = p"
  shows "float32_round t \<le> p"
proof -
  let ?ut = "float32_ulp t" and ?up = "float32_ulp p"
  have ut: "0 < ?ut" by (rule ulp_pos)
  from ulp_ratio [OF assms(2)] obtain k where k: "?up = 2 ^ k * ?ut" by blast
  have p0: "0 \<le> p" using assms by simp
  let ?K = "round_half_even (p / ?up) * 2 ^ k"
  have p: "p = of_int ?K * ?ut"
    using fp float32_round_nonneg [OF p0] k by (simp add: mult.assoc)
  have "t / ?ut \<le> p / ?ut"
    using assms(2) ut by (simp add: divide_right_mono)
  also have "p / ?ut = of_int ?K"
    using p ut by (metis nonzero_mult_div_cancel_right less_irrefl)
  finally have "round_half_even (t / ?ut) \<le> ?K"
    by (rule round_half_even_le)
  then have "of_int (round_half_even (t / ?ut)) * ?ut \<le> of_int ?K * ?ut"
    using ut by (simp add: mult_right_mono del: of_int_mult)
  then show ?thesis
    using p float32_round_nonneg [OF assms(1)] by simp
qed

lemma scale_gap:
  assumes "0 < pw" and "float32_scale n b pw < float32_scale n a pw"
  shows "b < float32_scale n a pw \<and> float32_scale n a pw \<le> a"
proof -
  from scale_form [of n a pw] obtain j where j: "j \<le> n" "float32_scale n a pw = pw / 2 ^ j"
    by blast
  from scale_form [of n b pw] obtain i where i: "i \<le> n" "float32_scale n b pw = pw / 2 ^ i"
    by blast
  have "pw / 2 ^ i < pw / 2 ^ j" using assms(2) i j by simp
  then have "(2::real) ^ j < 2 ^ i"
    using assms(1) by (simp add: field_simps)
  then have ji: "j < i" by simp
  then have "(2::real) ^ Suc j \<le> 2 ^ i"
    by (intro power_increasing) simp_all
  then have "pw / 2 ^ i \<le> pw / 2 ^ Suc j"
    using assms(1) by (intro divide_left_mono) simp_all
  then have two: "2 * float32_scale n b pw \<le> float32_scale n a pw"
    using i j by simp
  have "(1::real) \<le> 2 ^ j" by simp
  then have "pw / 2 ^ j \<le> pw" using assms(1) by (simp add: field_simps)
  then have "float32_scale n b pw < pw" using assms(2) j by simp
  from scale_next [OF assms(1) this] two have below: "b < float32_scale n a pw" by simp
  have "(2::real) ^ j < 2 ^ n"
    using ji i(1) by (intro power_strict_increasing) simp_all
  then have "pw / 2 ^ n < pw / 2 ^ j"
    using assms(1) by (intro divide_strict_left_mono) simp_all
  then have "float32_scale n a pw \<noteq> pw / 2 ^ n" unfolding j(2) by (rule less_imp_neq [symmetric])
  with scale_le_or_least [of n a pw] have "float32_scale n a pw \<le> a" by blast
  with below show ?thesis by blast
qed

lemma ulp_count: "0 < s \<Longrightarrow> s \<le> a \<Longrightarrow> of_int (2 ^ 23) \<le> a / (s / 2 ^ 23)"
  for a s :: real
  by (simp add: field_simps)

text \<open>... and from above.\<close>

lemma float32_round_above:
  assumes "0 \<le> b" and "b \<le> a" and fp: "float32_round b = b"
  shows "b \<le> float32_round a"
proof -
  define sa where "sa = float32_scale 253 a (2 ^ 127)"
  define sb where "sb = float32_scale 253 b (2 ^ 127)"
  let ?ua = "float32_ulp a" and ?ub = "float32_ulp b"
  have ua_def: "?ua = sa / 2 ^ 23" and ub_def: "?ub = sb / 2 ^ 23"
    by (simp_all add: float32_ulp_def sa_def sb_def)
  have a0: "0 \<le> a" using assms by simp
  have ua: "0 < ?ua" by (rule ulp_pos)
  have sa: "0 < sa" unfolding sa_def by (rule scale_pos) simp
  have sb: "0 < sb" unfolding sb_def by (rule scale_pos) simp
  from scale_ratio [OF assms(2), of 253 "2 ^ 127"] obtain k where k: "sa = 2 ^ k * sb"
    unfolding sa_def sb_def by blast
  have "(1::real) \<le> 2 ^ k" by simp
  then have le: "sb \<le> sa" unfolding k using sb by (simp add: mult_le_cancel_right1)
  have ra: "float32_round a = of_int (round_half_even (a / ?ua)) * ?ua"
    using float32_round_nonneg [OF a0] .
  show ?thesis
  proof (cases "sb = sa")
    case True
    then have u: "?ua = ?ub" by (simp add: ua_def ub_def)
    let ?K = "round_half_even (b / ?ub)"
    have b: "b = of_int ?K * ?ua"
      using fp float32_round_nonneg [OF assms(1)] u by simp
    have "of_int ?K = b / ?ua"
      using b ua by (metis nonzero_mult_div_cancel_right less_irrefl)
    also have "b / ?ua \<le> a / ?ua"
      using assms(2) ua by (simp add: divide_right_mono)
    finally have "?K \<le> round_half_even (a / ?ua)"
      by (rule round_half_even_ge)
    then have "of_int ?K * ?ua \<le> of_int (round_half_even (a / ?ua)) * ?ua"
      using ua by (simp add: mult_right_mono del: of_int_mult)
    then show ?thesis using b ra by simp
  next
    case False
    with le have "sb < sa" by simp
    then have gap: "b < sa" "sa \<le> a"
      using scale_gap [of "2 ^ 127" 253 b a] by (simp_all add: sa_def sb_def)
    have "of_int (2 ^ 23) \<le> a / ?ua"
      unfolding ua_def using sa gap(2) by (rule ulp_count)
    then have "2 ^ 23 \<le> round_half_even (a / ?ua)"
      by (rule round_half_even_ge)
    then have "of_int (2 ^ 23) \<le> (of_int (round_half_even (a / ?ua)) :: real)"
      by (simp only: of_int_le_iff)
    then have "of_int (2 ^ 23) * ?ua \<le> of_int (round_half_even (a / ?ua)) * ?ua"
      using ua by (intro mult_right_mono) simp_all
    moreover have "of_int (2 ^ 23) * ?ua = sa" by (simp add: ua_def)
    ultimately show ?thesis using gap(1) ra by simp
  qed
qed

lemma float32_round_le_fixed:
  assumes "t \<le> p" and fp: "float32_round p = p"
  shows "float32_round t \<le> p"
proof (cases "0 \<le> t")
  case True
  then show ?thesis using assms by (rule float32_round_below)
next
  case neg: False
  have r: "float32_round t = - float32_round (- t)"
    using float32_round_minus [of "- t"] by simp
  show ?thesis
  proof (cases "0 \<le> p")
    case True
    have "0 \<le> float32_round (- t)" using neg by (intro float32_round_sign) simp
    with True r show ?thesis by simp
  next
    case False
    have "float32_round (- p) = - p" using fp by (simp add: float32_round_minus)
    moreover have "0 \<le> - p" "- p \<le> - t" using False assms(1) by simp_all
    ultimately have "- p \<le> float32_round (- t)" by (intro float32_round_above)
    with r show ?thesis by simp
  qed
qed

lemma float32_round_ge_fixed:
  assumes "p \<le> t" and fp: "float32_round p = p"
  shows "p \<le> float32_round t"
proof -
  have "float32_round (- p) = - p" using fp by (simp add: float32_round_minus)
  moreover have "- t \<le> - p" using assms(1) by simp
  ultimately have "float32_round (- t) \<le> - p" by (intro float32_round_le_fixed)
  then show ?thesis by (simp add: float32_round_minus)
qed

lemma classify_fixed:
  assumes "float32_round p = p"
  shows "classify p t = 1 \<longleftrightarrow> p \<ge> t \<or> p = float32_round t"
proof
  assume "classify p t = 1"
  then have ge: "float32_round t \<le> p" by (simp add: classify_def split: if_splits)
  show "p \<ge> t \<or> p = float32_round t"
  proof (cases "t \<le> p")
    case True
    then show ?thesis by simp
  next
    case False
    then have "p \<le> t" by simp
    from float32_round_ge_fixed [OF this assms] ge show ?thesis by simp
  qed
next
  assume "p \<ge> t \<or> p = float32_round t"
  then have "float32_round t \<le> p"
    using float32_round_le_fixed [OF _ assms, of t] by auto
  then show "classify p t = 1" by (simp add: classify_def)
qed

text \<open>Evaluating the rounding at a numeral: the search for the scale, then the digits.\<close>

lemma float32_scale_numeral:
  "float32_scale (numeral k) a pw =
     (if pw \<le> a then pw else float32_scale (pred_numeral k) a (pw / 2))"
  by (simp add: numeral_eq_Suc)

lemma float32_ulp_half: "float32_ulp \<bar>1/2\<bar> = 1 / 2 ^ 24"
  by (simp add: float32_ulp_def float32_scale_numeral)

lemma float32_round_half: "float32_round (1/2) = 1/2"
  unfolding float32_round_def Let_def float32_ulp_half
  by (simp add: round_half_even_def Let_def)

lemma float32_ulp_045: "float32_ulp \<bar>8106479329266893/18014398509481984\<bar> = 1 / 2 ^ 25"
  by (simp add: float32_ulp_def float32_scale_numeral)

lemma float32_round_045:
  "float32_round (8106479329266893/18014398509481984) = 7549747/16777216"
  unfolding float32_round_def Let_def float32_ulp_045
  by (simp add: round_half_even_def Let_def)

lemma float32_ulp_045_single: "float32_ulp \<bar>7549747/16777216\<bar> = 1 / 2 ^ 25"
  by (simp add: float32_ulp_def float32_scale_numeral)

lemma float32_round_045_single: "float32_round (7549747/16777216) = 7549747/16777216"
  unfolding float32_round_def Let_def float32_ulp_045_single
  by (simp add: round_half_even_def Let_def)

lemma classify_half: "classify p (1/2) = (if p \<ge> 1/2 then 1 else 0)"
  by (simp add: classify_def float32_round_half)

lemma bc_half: "bc prob (1/2) = map (\<lambda>p. if p \<ge> 1/2 then 1 else 0) prob"
  by (simp add: bc_def classify_half)

lemma bc_scenario: "bc [1/10, 9/10, 6/10, 4/10] (1/2) = [0, 1, 1, 0]"
  by (simp add: bc_def classify_half)

lemma bc_one_label: "bc [1/10, 2/10] (1/2) = [0, 0]"
  by (simp add: bc_def classify_half)

lemma bc_separated: "bc [1/10, 2/10, 8/10, 9/10] (1/2) = [0, 0, 1, 1]"
  by (simp add: bc_def classify_half)

text \<open>
  C1 (as amended). For every probability \<open>p\<close> and threshold \<open>t\<close> the binary
  classification of \<open>p\<close> is 1 exactly when \<open>p\<close> is at least the threshold rounded
  to single precision, and 0 otherwise; the comparison is inclusive. For a
  single-precision \<open>p\<close> this is the case whenever \<open>p \<ge> t\<close>, and otherwise only when
  the threshold rounds down onto \<open>p\<close>; for a threshold that single precision
  represents, it is the case exactly when \<open>p \<ge> t\<close>. The list \<open>bc\<close> holds this
  classification of every probability, in order.
\<close>

theorem classify_single_precision:
  "(classify p t = 1 \<longleftrightarrow> p \<ge> float32_round t) \<and> (classify p t = 0 \<longleftrightarrow> \<not> p \<ge> float32_round t)
   \<and> classify (float32_round t) t = 1
   \<and> (float32_round p = p \<longrightarrow> (classify p t = 1 \<longleftrightarrow> p \<ge> t \<or> p = float32_round t))
   \<and> (float32_round t = t \<longrightarrow> (classify p t = 1 \<longleftrightarrow> p \<ge> t))
   \<and> length (bc prob t) = length prob
   \<and> (\<forall>i < length prob. bc prob t ! i = classify (prob ! i) t)"
proof -
  have "float32_round p = p \<longrightarrow> (classify p t = 1 \<longleftrightarrow> p \<ge> t \<or> p = float32_round t)"
    using classify_fixed [of p t] by blast
  moreover have "float32_round t = t \<longrightarrow> (classify p t = 1 \<longleftrightarrow> p \<ge> t)"
    by (simp add: classify_def)
  ultimately show ?thesis
    by (simp add: classify_def bc_def)
qed

theorem classify_single_precision_witness:
  "float32_round (1/2) = 1/2 \<and> classify (1/2) (1/2) = 1 \<and> classify (2/5) (1/2) = 0
   \<and> bc [1/2, 2/5, 3/5] (1/2) ! 1 = classify (2/5) (1/2)
   \<and> float32_round (7549747/16777216) = 7549747/16777216
   \<and> classify (7549747/16777216) (8106479329266893/18014398509481984) = 1"
  using classify_single_precision [of "1/2" "1/2" "[1/2, 2/5, 3/5]"]
    classify_single_precision [of "2/5" "1/2" "[]"]
    classify_single_precision [of "7549747/16777216" "8106479329266893/18014398509481984" "[]"]
  by (simp add: float32_round_half float32_round_045 float32_round_045_single)

text \<open>
  The claim as stated fails at the boundary: the double nearest to 0.45 is
  \<open>8106479329266893 / 2 ^ 54\<close>, the single-precision number nearest to it is
  \<open>7549747 / 2 ^ 24\<close>, which is smaller; a probability of that value is below the
  threshold and is classified as positive.
\<close>

theorem classify_threshold_rounded:
  "(7549747/16777216 :: real) < 8106479329266893/18014398509481984
   \<and> classify (7549747/16777216) (8106479329266893/18014398509481984) = 1"
  by (simp add: classify_def float32_round_045)

section \<open>The confusion matrix: properties\<close>

lemma sum_list_indicator:
  "distinct L \<Longrightarrow> a \<in> set L \<Longrightarrow> (\<Sum>l\<leftarrow>L. if a = l then 1 else 0) = (1::nat)"
  by (induction L) auto

lemma sum_list_indicator_absent:
  "a \<notin> set L \<Longrightarrow> (\<Sum>l\<leftarrow>L. if a = l \<and> Q l then 1 else 0) = (0::nat)"
  by (induction L) auto

lemma sum_list_filter_key:
  "distinct L \<Longrightarrow> f ` set xs \<subseteq> set L \<Longrightarrow>
   (\<Sum>l\<leftarrow>L. length (filter (\<lambda>x. f x = l \<and> P x) xs)) = length (filter P xs)"
proof (induction xs)
  case Nil
  then show ?case by simp
next
  case (Cons x xs)
  have split: "(\<Sum>l\<leftarrow>L. length (filter (\<lambda>x. f x = l \<and> P x) (x # xs)))
      = (\<Sum>l\<leftarrow>L. (if f x = l \<and> P x then 1 else 0) + length (filter (\<lambda>x. f x = l \<and> P x) xs))"
    by (rule arg_cong [where f = sum_list], rule map_cong) auto
  have ind: "(\<Sum>l\<leftarrow>L. if f x = l \<and> P x then 1 else 0) = (if P x then (1::nat) else 0)"
  proof (cases "P x")
    case True
    then show ?thesis using sum_list_indicator [of L "f x"] Cons.prems by simp
  next
    case False
    then show ?thesis by simp
  qed
  show ?case
    using Cons ind by (simp only: split sum_list_addf) auto
qed

lemma row_sum:
  "distinct L \<Longrightarrow> snd ` set pairs \<subseteq> set L \<Longrightarrow>
   (\<Sum>p\<leftarrow>L. cell_count pairs t p) = length (filter (\<lambda>x. fst x = t) pairs)"
proof -
  assume a: "distinct L" "snd ` set pairs \<subseteq> set L"
  have "(\<Sum>p\<leftarrow>L. cell_count pairs t p)
      = (\<Sum>p\<leftarrow>L. length (filter (\<lambda>x. snd x = p \<and> fst x = t) pairs))"
    by (rule arg_cong [where f = sum_list], rule map_cong)
       (auto simp: cell_count_def intro!: arg_cong [where f = length] filter_cong)
  then show ?thesis using sum_list_filter_key [OF a, of "\<lambda>x. fst x = t"] by simp
qed

lemma sum_list_concat_rows: "sum_list (concat xss) = (\<Sum>xs\<leftarrow>xss. sum_list xs)"
  for xss :: "nat list list"
  by (induction xss) auto

lemma matrix_total:
  assumes "distinct L" "fst ` set pairs \<subseteq> set L" "snd ` set pairs \<subseteq> set L"
  shows "sum_list (concat (map (\<lambda>t. map (\<lambda>p. cell_count pairs t p) L) L)) = length pairs"
proof -
  have "sum_list (concat (map (\<lambda>t. map (\<lambda>p. cell_count pairs t p) L) L))
      = (\<Sum>t\<leftarrow>L. \<Sum>p\<leftarrow>L. cell_count pairs t p)"
    by (simp add: sum_list_concat_rows comp_def)
  also have "\<dots> = (\<Sum>t\<leftarrow>L. length (filter (\<lambda>x. fst x = t \<and> True) pairs))"
    using row_sum [OF assms(1) assms(3)] by simp
  also have "\<dots> = length (filter (\<lambda>x. True) pairs)"
    using sum_list_filter_key [OF assms(1) assms(2), of "\<lambda>x. True"] by simp
  finally show ?thesis by simp
qed

lemma distinct_unique_labels: "distinct (unique_labels y_true y_pred)"
  by (simp add: unique_labels_def)

lemma set_unique_labels: "set (unique_labels y_true y_pred) = set y_true \<union> set y_pred"
  by (simp add: unique_labels_def)

lemma confusion_matrix_total:
  assumes "length y_pred = length y_true"
  shows "\<exists>confmat. confusion_matrix y_true y_pred = Inr confmat
           \<and> sum_list (concat confmat) = length y_true
           \<and> length confmat = length (unique_labels y_true y_pred)
           \<and> (\<forall>row \<in> set confmat. length row = length (unique_labels y_true y_pred))"
proof -
  let ?L = "unique_labels y_true y_pred"
  have f: "fst ` set (zip y_true y_pred) \<subseteq> set ?L"
    by (auto simp: set_unique_labels dest: set_zip_leftD)
  have s: "snd ` set (zip y_true y_pred) \<subseteq> set ?L"
    by (auto simp: set_unique_labels dest: set_zip_rightD)
  show ?thesis
    using assms matrix_total [OF distinct_unique_labels f s]
    by (auto simp: confusion_matrix_def Let_def)
qed

lemma sum_two_by_two:
  assumes "length m = 2" "\<forall>row \<in> set m. length row = 2"
  shows "sum_list (concat m) = m ! 0 ! 0 + m ! 0 ! 1 + m ! 1 ! 0 + (m ! 1 ! 1 :: nat)"
proof -
  from assms(1) obtain r0 r1 where m: "m = [r0, r1]"
    by (cases m; cases "tl m"; cases "tl (tl m)") auto
  with assms(2) have "length r0 = 2" "length r1 = 2" by auto
  then obtain a b c d where "r0 = [a, b]" "r1 = [c, d]"
    by (cases r0; cases "tl r0"; cases "tl (tl r0)"; cases r1; cases "tl r1"; cases "tl (tl r1)") auto
  with m show ?thesis by simp
qed

text \<open>
  The cells of the matrix, however many there are, sum to the size of the batch. The
  four counts TN, FP, FN and TP exist when the matrix is 2 by 2, and they are all its
  cells then.
\<close>

lemma confusion_counts_sum:
  assumes "length prob = length y_test"
  shows "\<exists>confmat. confusion_matrix y_test (bc prob threshold) = Inr confmat
           \<and> sum_list (concat confmat) = length y_test
           \<and> (length confmat = 2 \<longrightarrow>
                confmat ! 0 ! 0 + confmat ! 0 ! 1 + confmat ! 1 ! 0 + confmat ! 1 ! 1 = length y_test)"
proof -
  have len: "length (bc prob threshold) = length y_test"
    using assms by (simp add: length_bc)
  from confusion_matrix_total [OF len] obtain confmat where
    c: "confusion_matrix y_test (bc prob threshold) = Inr confmat"
       "sum_list (concat confmat) = length y_test"
       "length confmat = length (unique_labels y_test (bc prob threshold))"
       "\<forall>row \<in> set confmat. length row = length (unique_labels y_test (bc prob threshold))"
    by blast
  have "length confmat = 2 \<Longrightarrow>
        confmat ! 0 ! 0 + confmat ! 0 ! 1 + confmat ! 1 ! 0 + confmat ! 1 ! 1 = length y_test"
    using sum_two_by_two [of confmat] c by simp
  with c show ?thesis by blast
qed

lemma confusion_counts_sum_scenario:
  "\<exists>confmat. confusion_matrix [0, 1, 0, 1] (bc [1/10, 9/10, 6/10, 4/10] (1/2)) = Inr confmat
     \<and> sum_list (concat confmat) = 4 \<and> length confmat = 2
     \<and> confmat ! 0 ! 0 + confmat ! 0 ! 1 + confmat ! 1 ! 0 + confmat ! 1 ! 1 = 4"
  using confusion_counts_sum [of "[1/10, 9/10, 6/10, 4/10]" "[0, 1, 0, 1]" "1/2"]
  by (auto simp: confusion_matrix_def unique_labels_def bc_def classify_half cell_count_def)


section \<open>The prediction cell: properties\<close>

lemma grid_keys:
  "map cfg_key grid = [''gru 12'', ''lstm 12'', ''gru 36'', ''lstm 36'', ''gru 60'', ''lstm 60'']"
  by (simp add: grid_def time_windows_def rnn_types_def cfg_key_def results_key_def
      str_int_def str_nat.simps digit_char_def)

lemma grid_keys_distinct: "distinct (map cfg_key grid)"
  unfolding grid_keys by simp

lemma predict_config_ok:
  assumes "predict_config env results cfg = (results', None)"
  shows "\<exists>entry. config_entry env cfg = Some entry
           \<and> results' = AList.update (cfg_key cfg) entry results"
  using assms
  by (auto simp: predict_config_def config_entry_def cfg_key_def Let_def
      split: prod.splits sum.splits)

lemma predict_config_failed:
  assumes "predict_config env results cfg = (results', Some e)"
  shows "results' = results
         \<or> (\<exists>entry. config_entry env cfg = Some entry
               \<and> results' = AList.update (cfg_key cfg) entry results)"
  using assms
  by (auto simp: predict_config_def config_entry_def cfg_key_def Let_def
      split: prod.splits sum.splits)

lemma run_grid_append:
  "run_grid env results (xs @ ys) =
     (case run_grid env results xs of
        (results', Some e) \<Rightarrow> (results', Some e)
      | (results', None) \<Rightarrow> run_grid env results' ys)"
  by (induction xs arbitrary: results) (auto split: prod.splits option.splits)

lemma update_fresh: "k \<notin> fst ` set al \<Longrightarrow> AList.update k v al = al @ [(k, v)]"
  by (induction al) auto

lemma run_grid_ok:
  assumes "run_grid env results cfgs = (results', None)"
    and "distinct (map cfg_key cfgs)"
    and "cfg_key ` set cfgs \<inter> fst ` set results = {}"
  shows "results' = results @ map (\<lambda>cfg. (cfg_key cfg, the (config_entry env cfg))) cfgs
         \<and> (\<forall>cfg \<in> set cfgs. config_entry env cfg \<noteq> None)"
  using assms
proof (induction cfgs arbitrary: results)
  case Nil
  then show ?case by simp
next
  case (Cons cfg cfgs)
  from Cons.prems(1) obtain mid where
    step: "predict_config env results cfg = (mid, None)" and
    rest: "run_grid env mid cfgs = (results', None)"
    by (auto split: prod.splits option.splits)
  from predict_config_ok [OF step] obtain entry where
    entry: "config_entry env cfg = Some entry" and
    mid: "mid = AList.update (cfg_key cfg) entry results"
    by blast
  have fresh: "cfg_key cfg \<notin> fst ` set results"
    using Cons.prems(3) by auto
  have mid': "mid = results @ [(cfg_key cfg, entry)]"
    using mid update_fresh [OF fresh] by simp
  have disj: "cfg_key ` set cfgs \<inter> fst ` set mid = {}"
    using Cons.prems(2,3) by (auto simp: mid')
  from Cons.IH [OF rest _ disj] Cons.prems(2)
  show ?case by (simp add: mid' entry)
qed

lemma config_entry_SomeD:
  assumes "config_entry env (time_window, ty) = Some entry"
  shows "\<exists>n_features threshold model X_test y_test nb_test prob.
           get_n_features_thresh env ty time_window = Inr (n_features, threshold)
         \<and> load_model env (model_file ty time_window) = Inr model
         \<and> load_data env (test_data_file time_window) series_len start_feature n_features
               mask_value ty time_window = Inr (X_test, y_test, nb_test)
         \<and> predict env model X_test batch_size = Inr prob
         \<and> entry = (y_test, bc prob threshold)"
  using assms by (auto simp: config_entry_def split: sum.splits prod.splits)

lemma map_of_keyed:
  "distinct (map f xs) \<Longrightarrow> x \<in> set xs \<Longrightarrow> map_of (map (\<lambda>c. (f c, g c)) xs) (f x) = Some (g x)"
  by (induction xs) (auto simp: rev_image_eqI)

lemma grid_members:
  "time_window \<in> set time_windows \<Longrightarrow> ty \<in> set rnn_types \<Longrightarrow> (time_window, ty) \<in> set grid"
  by (simp add: grid_def)

text \<open>
  C9. After a complete successful run of the prediction cell the results dictionary has
  exactly the six keys \<open>gru 12\<close>, \<open>lstm 12\<close>, \<open>gru 36\<close>, \<open>lstm 36\<close>, \<open>gru 60\<close>,
  \<open>lstm 60\<close> (the keys \<^verbatim>\<open>f'{type} {time_window}'\<close> of the grid, pairwise distinct,
  one per pass of the loop, so each is written once), and the value under the key of each
  pair is the ground truth of its test file paired with the thresholded probabilities of
  its model.
\<close>

theorem prediction_cell_results:
  assumes "prediction_cell env = (results, None)"
  shows "map fst results = [''gru 12'', ''lstm 12'', ''gru 36'', ''lstm 36'', ''gru 60'', ''lstm 60'']
       \<and> map fst results = map (\<lambda>(time_window, ty). results_key ty time_window) grid
       \<and> length results = 6 \<and> distinct (map fst results)
       \<and> (\<forall>time_window \<in> set time_windows. \<forall>ty \<in> set rnn_types.
            \<exists>n_features threshold model X_test y_test nb_test prob.
              get_n_features_thresh env ty time_window = Inr (n_features, threshold)
            \<and> load_model env (model_file ty time_window) = Inr model
            \<and> load_data env (test_data_file time_window) series_len start_feature n_features
                  mask_value ty time_window = Inr (X_test, y_test, nb_test)
            \<and> predict env model X_test batch_size = Inr prob
            \<and> map_of results (results_key ty time_window) = Some (y_test, bc prob threshold))"
proof -
  have run: "run_grid env [] grid = (results, None)"
    using assms by (simp add: prediction_cell_def)
  from run_grid_ok [OF run grid_keys_distinct]
  have res: "results = map (\<lambda>cfg. (cfg_key cfg, the (config_entry env cfg))) grid"
    and all: "\<forall>cfg \<in> set grid. config_entry env cfg \<noteq> None"
    by simp_all
  have keys: "map fst results = map cfg_key grid"
    by (simp add: res comp_def)
  have k1: "map fst results = [''gru 12'', ''lstm 12'', ''gru 36'', ''lstm 36'', ''gru 60'', ''lstm 60'']"
    using keys grid_keys by simp
  have k2: "map fst results = map (\<lambda>(time_window, ty). results_key ty time_window) grid"
    using keys by (simp add: cfg_key_def [abs_def])
  have k3: "length results = 6"
    using arg_cong [OF k1, of length] by simp
  have k4: "distinct (map fst results)"
    using keys grid_keys_distinct by simp
  have k5: "\<exists>n_features threshold model X_test y_test nb_test prob.
              get_n_features_thresh env ty time_window = Inr (n_features, threshold)
            \<and> load_model env (model_file ty time_window) = Inr model
            \<and> load_data env (test_data_file time_window) series_len start_feature n_features
                  mask_value ty time_window = Inr (X_test, y_test, nb_test)
            \<and> predict env model X_test batch_size = Inr prob
            \<and> map_of results (results_key ty time_window) = Some (y_test, bc prob threshold)"
    if tw: "time_window \<in> set time_windows" and ty: "ty \<in> set rnn_types" for time_window ty
  proof -
    have mem: "(time_window, ty) \<in> set grid"
      using grid_members [OF tw ty] .
    with all obtain entry where entry: "config_entry env (time_window, ty) = Some entry"
      by auto
    have "map_of results (cfg_key (time_window, ty)) = Some (the (config_entry env (time_window, ty)))"
      unfolding res using map_of_keyed [OF grid_keys_distinct mem] .
    then have look: "map_of results (results_key ty time_window) = Some entry"
      by (simp add: cfg_key_def entry)
    from config_entry_SomeD [OF entry] look show ?thesis
      by auto
  qed
  from k1 k2 k3 k4 k5 show ?thesis by blast
qed

lemma scenario_matrix:
  "confusion_matrix [0, 1, 0, 1] [0, 1, 1, 0] = Inr [[1, 1], [1, 1]]"
  "cell_texts [[1, 1], [1, 1]] = Inr [''TN = 1'', ''FP = 1'', ''FN = 1'', ''TP = 1'']"
  by code_simp+

lemma scenario_texts:
  "cell_texts [[Suc 0, Suc 0], [Suc 0, Suc 0]] = Inr [''TN = 1'', ''FP = 1'', ''FN = 1'', ''TP = 1'']"
  using scenario_matrix(2) by simp

lemma stub_step:
  "predict_config stub_collaborators results (time_window, ty) =
     (AList.update (results_key ty time_window) ([0, 1, 0, 1], [0, 1, 1, 0]) results, None)"
  by (simp add: predict_config_def stub_collaborators_def bc_half scenario_matrix
      scenario_texts Let_def)

lemma stub_run:
  "prediction_cell stub_collaborators =
     ([(''gru 12'', [0, 1, 0, 1], [0, 1, 1, 0]), (''lstm 12'', [0, 1, 0, 1], [0, 1, 1, 0]),
       (''gru 36'', [0, 1, 0, 1], [0, 1, 1, 0]), (''lstm 36'', [0, 1, 0, 1], [0, 1, 1, 0]),
       (''gru 60'', [0, 1, 0, 1], [0, 1, 1, 0]), (''lstm 60'', [0, 1, 0, 1], [0, 1, 1, 0])],
      None)"
  by (simp add: prediction_cell_def grid_def time_windows_def rnn_types_def stub_step
      results_key_def str_int_def str_nat.simps digit_char_def)

theorem prediction_cell_results_witness:
  "\<exists>results. prediction_cell stub_collaborators = (results, None)
     \<and> length results = 6
     \<and> map fst results = [''gru 12'', ''lstm 12'', ''gru 36'', ''lstm 36'', ''gru 60'', ''lstm 60'']
     \<and> map_of results ''lstm 36'' = Some ([0, 1, 0, 1], bc [1/10, 9/10, 6/10, 4/10] (1/2))"
  using prediction_cell_results [OF stub_run] stub_run
  by (simp add: bc_def classify_half)

lemma set_update_keys: "fst ` set (AList.update k v al) = insert k (fst ` set al)"
  by (induction al) auto

text \<open>
  C7. When the loop body fails on a configuration of the grid, the prediction cell stops
  with that exception, and the entries stored by the configurations processed before it
  are what they were: each earlier key still maps to the entry its configuration wrote,
  at the same position of the dictionary. A failure to load the model leaves the whole
  dictionary unchanged.
\<close>

theorem failure_keeps_earlier_results:
  assumes "grid = before @ cfg # rest"
    and "run_grid env [] before = (results, None)"
    and "predict_config env results cfg = (results', Some e)"
  shows "prediction_cell env = (results', Some e)
       \<and> take (length results) results' = results
       \<and> (\<forall>c \<in> set before. map_of results' (cfg_key c) = map_of results (cfg_key c)
                           \<and> map_of results (cfg_key c) = config_entry env c)
       \<and> ((\<exists>e'. load_model env (model_file (snd cfg) (fst cfg)) = Inl e') \<longrightarrow> results' = results)"
proof -
  have dist: "distinct (map cfg_key before)" and fresh_cfg: "cfg_key cfg \<notin> cfg_key ` set before"
    using grid_keys_distinct unfolding assms(1) by auto
  from run_grid_ok [OF assms(2) dist]
  have res: "results = map (\<lambda>c. (cfg_key c, the (config_entry env c))) before"
    and all: "\<forall>c \<in> set before. config_entry env c \<noteq> None"
    by simp_all
  have keys: "fst ` set results = cfg_key ` set before"
    by (auto simp: res image_iff)
  have fresh: "cfg_key cfg \<notin> fst ` set results"
    using fresh_cfg keys by simp
  have c1: "prediction_cell env = (results', Some e)"
    unfolding prediction_cell_def assms(1) using assms(2,3) by (simp add: run_grid_append)
  from predict_config_failed [OF assms(3)]
  have shape: "results' = results \<or> (\<exists>entry. results' = results @ [(cfg_key cfg, entry)])"
    using update_fresh [OF fresh] by auto
  then have c2: "take (length results) results' = results"
    by auto
  have c3: "map_of results' (cfg_key c) = map_of results (cfg_key c)
            \<and> map_of results (cfg_key c) = config_entry env c" if c: "c \<in> set before" for c
  proof -
    have ne: "cfg_key c \<noteq> cfg_key cfg"
      using c fresh_cfg by (metis imageI)
    have a: "map_of results' (cfg_key c) = map_of results (cfg_key c)"
      using shape ne by (auto simp: map_add_def split: option.splits)
    have "map_of results (cfg_key c) = Some (the (config_entry env c))"
      unfolding res using map_of_keyed [OF dist c] .
    with all c a show ?thesis by auto
  qed
  have c4: "results' = results" if "load_model env (model_file (snd cfg) (fst cfg)) = Inl e'" for e'
    using that assms(3)
    by (auto simp: predict_config_def split: prod.splits sum.splits)
  from c1 c2 c3 c4 show ?thesis by blast
qed

theorem failure_keeps_earlier_results_witness:
  "prediction_cell missing_model_collaborators =
     ([(''gru 12'', [0, 1, 0, 1], [0, 1, 1, 0]), (''lstm 12'', [0, 1, 0, 1], [0, 1, 1, 0])],
      Some OSError)
   \<and> run_grid missing_model_collaborators [] [(12, ''gru''), (12, ''lstm'')] =
     ([(''gru 12'', [0, 1, 0, 1], [0, 1, 1, 0]), (''lstm 12'', [0, 1, 0, 1], [0, 1, 1, 0])],
      None)"
proof -
  let ?R = "[(''gru 12'', [0, 1, 0, 1], [0, 1, 1, 0]), (''lstm 12'', [0, 1, 0, 1], [0, 1, 1, 0])]"
  have g: "grid = [(12, ''gru''), (12, ''lstm'')] @ (36, ''gru'') # [(36, ''lstm''), (60, ''gru''), (60, ''lstm'')]"
    by (simp add: grid_def time_windows_def rnn_types_def)
  have r: "run_grid missing_model_collaborators [] [(12, ''gru''), (12, ''lstm'')] = (?R, None)"
    by (simp add: predict_config_def missing_model_collaborators_def stub_collaborators_def
        bc_half scenario_matrix scenario_texts Let_def model_file_def results_key_def
        str_int_def str_nat.simps digit_char_def)
  have f: "predict_config missing_model_collaborators ?R (36, ''gru'') = (?R, Some OSError)"
    by (simp add: predict_config_def missing_model_collaborators_def stub_collaborators_def
        model_file_def str_int_def str_nat.simps digit_char_def)
  from failure_keeps_earlier_results [OF g r f] r show ?thesis
    by simp
qed

section \<open>The shape of the confusion matrix\<close>

lemma unique_labels_binary:
  assumes "set y_true \<union> set y_pred = {0, 1}"
  shows "unique_labels y_true y_pred = [0, 1]"
proof -
  have "set (unique_labels y_true y_pred) = set [0, 1::int]"
    using assms by (simp add: set_unique_labels insert_commute)
  moreover have "sorted (unique_labels y_true y_pred)"
    by (simp add: unique_labels_def)
  ultimately show ?thesis
    using distinct_unique_labels [of y_true y_pred]
    by (intro sorted_distinct_set_unique) auto
qed

lemma confusion_matrix_two_labels:
  assumes "length y_pred = length y_true" and "set y_true \<union> set y_pred = {0, 1}"
  shows "confusion_matrix y_true y_pred =
           Inr [[cell_count (zip y_true y_pred) 0 0, cell_count (zip y_true y_pred) 0 1],
                [cell_count (zip y_true y_pred) 1 0, cell_count (zip y_true y_pred) 1 1]]"
  using assms by (simp add: confusion_matrix_def unique_labels_binary)

lemma confusion_matrix_scenario:
  "bc [1/10, 9/10, 6/10, 4/10] (1/2) = [0, 1, 1, 0]
   \<and> confusion_matrix [0, 1, 0, 1] (bc [1/10, 9/10, 6/10, 4/10] (1/2)) = Inr [[1, 1], [1, 1]]
   \<and> cell_texts [[1, 1], [1, 1]] = Inr [''TN = 1'', ''FP = 1'', ''FN = 1'', ''TP = 1'']"
  by (simp add: bc_def classify_half confusion_matrix_def unique_labels_def cell_count_def
      cell_texts_def cell_text_def cm_grid_def str_nat.simps digit_char_def)

text \<open>
  C4. A batch in which a single label occurs, in the ground truth and in the predictions
  alike: two negative samples with probabilities 0.1 and 0.2 at threshold 0.5. The
  predictions are \<open>[0, 0]\<close>, the matrix has the single cell 2 instead of
  \<open>TN = 2, FP = 0, FN = 0, TP = 0\<close>, its annotation raises \<^verbatim>\<open>IndexError\<close> at
  \<^verbatim>\<open>confmat[0][1]\<close>, and the prediction cell stops on the first configuration.
\<close>

theorem one_label_batch_matrix:
  "bc [1/10, 2/10] (1/2) = [0, 0]
   \<and> confusion_matrix [0, 0] (bc [1/10, 2/10] (1/2)) = Inr [[2]]
   \<and> cell_texts [[2]] = Inl IndexError
   \<and> prediction_cell one_label_collaborators = ([(''gru 12'', [0, 0], [0, 0])], Some IndexError)"
proof -
  have cm: "confusion_matrix [0, 0] [0, 0] = Inr [[2]]" by code_simp
  have ct: "cell_texts [[2]] = Inl IndexError" by code_simp
  have step: "predict_config one_label_collaborators [] (12, ''gru'') =
                ([(''gru 12'', [0, 0], [0, 0])], Some IndexError)"
    by (simp add: predict_config_def one_label_collaborators_def stub_collaborators_def
        bc_half cm ct Let_def results_key_def str_int_def str_nat.simps digit_char_def)
  have run: "prediction_cell one_label_collaborators =
               ([(''gru 12'', [0, 0], [0, 0])], Some IndexError)"
    by (simp add: prediction_cell_def grid_def time_windows_def rnn_types_def step)
  show ?thesis by (simp add: bc_half cm ct run)
qed

text \<open>
  C5. The same batch of two negative samples, probabilities 0.1 and 0.2 at threshold
  0.5: the matrix \<^verbatim>\<open>cm(y_test, bc)\<close> has one row of one cell, the count 2 of the
  pairs (0, 0). It is the only count there is: \<^verbatim>\<open>confmat[0][1]\<close>,
  \<^verbatim>\<open>confmat[1][0]\<close> and \<^verbatim>\<open>confmat[1][1]\<close>, the places of FP, FN and TP, raise
  \<^verbatim>\<open>IndexError\<close>, so there are no four counts to sum to the batch size.
\<close>

theorem one_label_batch_counts:
  "confusion_matrix [0, 0] (bc [1/10, 2/10] (1/2)) = Inr [[2]]
   \<and> length [[2::nat]] = 1 \<and> map length [[2::nat]] = [1]
   \<and> cell_text [[2]] 0 0 = Inr ''TN = 2''
   \<and> cell_text [[2]] 0 1 = Inl IndexError
   \<and> cell_text [[2]] 1 0 = Inl IndexError
   \<and> cell_text [[2]] 1 1 = Inl IndexError"
proof -
  have "confusion_matrix [0, 0] (bc [1/10, 2/10] (1/2)) = Inr [[2]]"
    by (simp add: bc_half confusion_matrix_def unique_labels_def cell_count_def)
  moreover have "cell_text [[2]] 0 0 = Inr ''TN = 2''"
    by (simp add: cell_text_def cm_grid_def str_nat.simps digit_char_def)
  moreover have "cell_text [[2]] 0 1 = Inl IndexError" "cell_text [[2]] 1 0 = Inl IndexError"
    "cell_text [[2]] 1 1 = Inl IndexError"
    by (simp_all add: cell_text_def)
  ultimately show ?thesis by simp
qed

section \<open>The legend label: properties\<close>

lemma percent_format_copy:
  "c \<noteq> CHR ''%'' \<Longrightarrow>
   percent_format (c # cs) arg = map_sum id (\<lambda>out. c # out) (percent_format cs arg)"
  by simp

lemma percent_format_plain:
  "CHR ''%'' \<notin> set s \<Longrightarrow>
   percent_format (s @ rest) arg = map_sum id (\<lambda>out. s @ out) (percent_format rest arg)"
proof (induction s)
  case Nil
  show ?case by (cases "percent_format rest arg") simp_all
next
  case (Cons c s)
  then have c: "c \<noteq> CHR ''%''" and s: "CHR ''%'' \<notin> set s" by auto
  have "percent_format ((c # s) @ rest) arg
      = map_sum id (\<lambda>out. c # out) (percent_format (s @ rest) arg)"
    using percent_format_copy [OF c] by simp
  also have "\<dots> = map_sum id (\<lambda>out. (c # s) @ out) (percent_format rest arg)"
    unfolding Cons.IH [OF s] by (cases "percent_format rest arg") simp_all
  finally show ?case .
qed

lemma percent_format_conversion:
  "percent_format ''%0.3f)'' (Some x) = Inr (fmt_0_3f x @ '')'')"
  by simp

lemma upper_char_fixed:
  assumes "c \<in> set ''0123456789- ''"
  shows "upper_char c = c"
proof -
  from assms have "c = CHR ''0'' \<or> c = CHR ''1'' \<or> c = CHR ''2'' \<or> c = CHR ''3''
      \<or> c = CHR ''4'' \<or> c = CHR ''5'' \<or> c = CHR ''6'' \<or> c = CHR ''7'' \<or> c = CHR ''8''
      \<or> c = CHR ''9'' \<or> c = CHR ''-'' \<or> c = CHR '' ''"
    by simp
  then show ?thesis
    by (elim disjE) (simp_all add: upper_char_def)
qed

lemma upper_char_percent: "upper_char c = CHR ''%'' \<Longrightarrow> c = CHR ''%''"
  by (auto simp: upper_char_def split: option.splits if_splits)

lemma digit_char_digit: "digit_char d \<in> set ''0123456789''"
proof -
  have "d mod 10 = 0 \<or> d mod 10 = 1 \<or> d mod 10 = 2 \<or> d mod 10 = 3 \<or> d mod 10 = 4
      \<or> d mod 10 = 5 \<or> d mod 10 = 6 \<or> d mod 10 = 7 \<or> d mod 10 = 8 \<or> d mod 10 = 9"
    by presburger
  then show ?thesis unfolding digit_char_def by (elim disjE) simp_all
qed

lemma str_nat_digits: "set (str_nat n) \<subseteq> set ''0123456789''"
proof (induction n rule: str_nat.induct)
  case (1 n)
  show ?case
  proof (cases "n < 10")
    case True
    then show ?thesis using digit_char_digit [of n] by (subst str_nat.simps) simp
  next
    case False
    then show ?thesis
      using 1 digit_char_digit [of "n mod 10"] by (subst str_nat.simps) simp
  qed
qed

lemma digits_plain: "set ''0123456789'' \<subseteq> set ''0123456789- ''"
  by simp

lemma minus_plain: "CHR ''-'' \<in> set ''0123456789- ''"
  by simp

lemma percent_not_plain: "CHR ''%'' \<notin> set ''0123456789- ''"
  by simp

lemma str_nat_plain: "set (str_nat n) \<subseteq> set ''0123456789- ''"
  by (rule subset_trans [OF str_nat_digits digits_plain])

lemma str_int_chars: "set (str_int i) \<subseteq> set ''0123456789- ''"
proof (cases "i < 0")
  case True
  have "set (str_int i) = insert CHR ''-'' (set (str_nat (nat (- i))))"
    using True by (simp add: str_int_def)
  then show ?thesis
    by (simp only: insert_subset minus_plain str_nat_plain simp_thms)
next
  case False
  have "set (str_int i) = set (str_nat (nat i))"
    using False by (simp add: str_int_def)
  then show ?thesis
    by (simp only: str_nat_plain)
qed

lemma upper_fixed:
  assumes "set s \<subseteq> set ''0123456789- ''"
  shows "upper s = s"
  unfolding upper_def
proof (rule map_idI)
  fix c
  assume "c \<in> set s"
  with assms have "c \<in> set ''0123456789- ''" by blast
  then show "upper_char c = c" by (rule upper_char_fixed)
qed

lemma upper_str_int: "upper (str_int i) = str_int i"
  by (rule upper_fixed) (rule str_int_chars)

lemma upper_results_key:
  "upper (results_key ty time_window) = upper ty @ '' '' @ str_int time_window"
proof -
  have "upper (results_key ty time_window) = upper ty @ upper '' '' @ upper (str_int time_window)"
    by (simp add: results_key_def upper_def)
  then show ?thesis by (simp add: upper_str_int) (simp add: upper_def upper_char_def)
qed

lemma upper_no_percent:
  assumes "CHR ''%'' \<notin> set s"
  shows "CHR ''%'' \<notin> set (upper s)"
proof
  assume "CHR ''%'' \<in> set (upper s)"
  then obtain c where c: "c \<in> set s" and u: "upper_char c = CHR ''%''"
    unfolding upper_def by (metis (no_types) imageE list.set_map)
  from upper_char_percent [OF u] c assms show False by simp
qed

lemma round_half_even_near: "\<bar>real_of_int (round_half_even r) - r\<bar> \<le> 1/2"
proof -
  have lo: "of_int \<lfloor>r\<rfloor> \<le> r" and hi: "r < of_int \<lfloor>r\<rfloor> + 1"
    by linarith+
  from round_half_even_cases [of r] show ?thesis
  proof
    assume "round_half_even r = \<lfloor>r\<rfloor> \<and> r - of_int \<lfloor>r\<rfloor> \<le> 1/2"
    with lo show ?thesis by simp
  next
    assume "round_half_even r = \<lfloor>r\<rfloor> + 1 \<and> r - of_int \<lfloor>r\<rfloor> \<ge> 1/2"
    with hi show ?thesis by simp
  qed
qed

lemma legend_label_plain:
  assumes "CHR ''%'' \<notin> set ty"
  shows "legend_label (results_key ty time_window) r_auc =
           Inr (upper ty @ '' '' @ str_int time_window @ '' Hour (AUROC = '' @ fmt_0_3f r_auc @ '')'')"
proof -
  let ?head = "upper ty @ '' '' @ str_int time_window @ '' Hour (AUROC = ''"
  have "CHR ''%'' \<notin> set (str_int time_window)"
  proof
    assume "CHR ''%'' \<in> set (str_int time_window)"
    then have "CHR ''%'' \<in> set ''0123456789- ''"
      by (rule subsetD [OF str_int_chars])
    with percent_not_plain show False by (rule notE)
  qed
  then have no: "CHR ''%'' \<notin> set ?head"
    using upper_no_percent [OF assms] by simp
  have "legend_label (results_key ty time_window) r_auc
      = percent_format (?head @ ''%0.3f)'') (Some r_auc)"
    by (simp add: legend_label_def upper_results_key)
  also have "\<dots> = map_sum id (\<lambda>out. ?head @ out) (percent_format ''%0.3f)'' (Some r_auc))"
    using percent_format_plain [OF no] .
  finally show ?thesis
    by (simp only: percent_format_conversion map_sum.simps id_apply append_assoc)
qed

text \<open>
  C8. For every configuration of the grid and every score \<open>a\<close> the legend entry is the
  upper-cased algorithm name, a space, the time window, \<open>Hour (AUROC = \<close>, the score
  and a closing parenthesis; the score is printed with exactly three digits after the
  point, and the number printed, \<open>n / 1000\<close>, is \<open>|a|\<close> rounded to the nearest
  thousandth (with a minus sign in front when \<open>a\<close> is negative).
\<close>

theorem legend_label_format:
  assumes "(time_window, ty) \<in> set grid"
  shows "\<exists>n. legend_label (results_key ty time_window) (Some a) =
               Inr (upper ty @ '' '' @ str_int time_window @ '' Hour (AUROC = ''
                    @ (if a < 0 then ''-'' else []) @ str_nat (n div 1000) @ ''.''
                    @ [digit_char (n div 100 mod 10), digit_char (n div 10 mod 10),
                       digit_char (n mod 10)]
                    @ '')'')
           \<and> \<bar>real n - \<bar>a\<bar> * 1000\<bar> \<le> 1/2
           \<and> upper ty \<in> {''GRU'', ''LSTM''}"
proof -
  let ?n = "nat (round_half_even (\<bar>a\<bar> * 1000))"
  have ty: "ty \<in> {''gru'', ''lstm''}"
    using assms by (auto simp: grid_def rnn_types_def)
  then have no: "CHR ''%'' \<notin> set ty" by auto
  have up: "upper ty \<in> {''GRU'', ''LSTM''}"
    using ty by (auto simp: upper_def upper_char_def)
  have near: "\<bar>real ?n - \<bar>a\<bar> * 1000\<bar> \<le> 1/2"
    using round_half_even_near [of "\<bar>a\<bar> * 1000"] round_half_even_nonneg [of "\<bar>a\<bar> * 1000"]
    by simp
  have digits: "digit_char (?n div 100) = digit_char (?n div 100 mod 10)"
    "digit_char (?n div 10) = digit_char (?n div 10 mod 10)"
    "digit_char ?n = digit_char (?n mod 10)"
    by (simp_all add: digit_char_def)
  have "legend_label (results_key ty time_window) (Some a) =
               Inr (upper ty @ '' '' @ str_int time_window @ '' Hour (AUROC = ''
                    @ (if a < 0 then ''-'' else []) @ str_nat (?n div 1000) @ ''.''
                    @ [digit_char (?n div 100 mod 10), digit_char (?n div 10 mod 10),
                       digit_char (?n mod 10)]
                    @ '')'')"
    unfolding legend_label_plain [OF no] using digits
    by (simp add: fmt_0_3f_def Let_def)
  with near up show ?thesis by blast
qed

theorem legend_label_format_witness:
  "(12, ''gru'') \<in> set grid
   \<and> legend_label (results_key ''gru'' 12) (Some (3/4)) = Inr ''GRU 12 Hour (AUROC = 0.750)''"
proof -
  have g: "(12, ''gru'') \<in> set grid"
    by (simp add: grid_def time_windows_def rnn_types_def)
  have "legend_label (results_key ''gru'' 12) (Some (3/4)) = Inr ''GRU 12 Hour (AUROC = 0.750)''"
    by code_simp
  with g legend_label_format [OF g, of "3/4"] show ?thesis by simp
qed

section \<open>The training cell: properties\<close>

lemma training_cell_after_setup:
  assumes "get_n_features_thresh env (chars ty) time_window = Inr (n_features, thresh)"
    and "load_data env (train_data_file time_window) series_len start_feature n_features
           mask_value (chars ty) time_window = Inr (X_train, y_train, nb_train)"
    and "compute_class_weight env y_train = Inr class_weights"
    and "2 \<le> length class_weights"
  shows "training_cell env lit model0 ty time_window =
     (case build_model env lit model0 ty n_features of
        Inl e \<Rightarrow> (model0, Some e)
      | Inr None \<Rightarrow> (None, Some NameError)
      | Inr (Some model) \<Rightarrow>
          (case compile_and_fit env model X_train y_train epochs batch_size
                  (class_weights ! 0, class_weights ! 1) of
             Inl e \<Rightarrow> (Some model, Some e)
           | Inr fitted \<Rightarrow>
               (case save env fitted (model_file (chars ty) time_window) of
                  Inl e \<Rightarrow> (Some fitted, Some e)
                | Inr u \<Rightarrow> (Some fitted, None))))"
  using assms by (simp add: training_cell_def)

text \<open>
  C10 (as amended). Once the data of the training cell is loaded, a model is constructed
  only when the algorithm string is the very object of the literal \<^verbatim>\<open>'lstm'\<close> (an
  LSTM is built) or of the literal \<^verbatim>\<open>'gru'\<close> (a GRU is built). For any other
  object, whatever its characters, no branch assigns \<^verbatim>\<open>model\<close> and nothing is
  constructed: the training step raises \<^verbatim>\<open>NameError\<close> when the name is unbound in
  the notebook's namespace, and when an earlier cell has bound it the training step
  compiles, fits and saves that model.
\<close>

theorem training_cell_dispatch:
  assumes "get_n_features_thresh env (chars ty) time_window = Inr (n_features, thresh)"
    and "load_data env (train_data_file time_window) series_len start_feature n_features
           mask_value (chars ty) time_window = Inr (X_train, y_train, nb_train)"
    and "compute_class_weight env y_train = Inr class_weights"
    and "2 \<le> length class_weights"
  shows "(py_is ty (lit ''lstm'') \<longrightarrow>
            build_model env lit model0 ty n_features = map_sum id Some (lstm env n_features series_len))
       \<and> (\<not> py_is ty (lit ''lstm'') \<and> py_is ty (lit ''gru'') \<longrightarrow>
            build_model env lit model0 ty n_features = map_sum id Some (gru env n_features series_len))
       \<and> (\<not> py_is ty (lit ''lstm'') \<and> \<not> py_is ty (lit ''gru'') \<longrightarrow>
            build_model env lit model0 ty n_features = Inr model0
          \<and> (model0 = None \<longrightarrow>
                training_cell env lit model0 ty time_window = (None, Some NameError))
          \<and> (\<forall>stale. model0 = Some stale \<longrightarrow>
                training_cell env lit model0 ty time_window =
                  (case compile_and_fit env stale X_train y_train epochs batch_size
                          (class_weights ! 0, class_weights ! 1) of
                     Inl e \<Rightarrow> (Some stale, Some e)
                   | Inr fitted \<Rightarrow>
                       (case save env fitted (model_file (chars ty) time_window) of
                          Inl e \<Rightarrow> (Some fitted, Some e)
                        | Inr u \<Rightarrow> (Some fitted, None)))))"
  unfolding training_cell_after_setup [OF assms]
  by (simp add: build_model_def)

theorem training_cell_dispatch_witness:
  "training_cell stub_collaborators stub_literals None \<lparr>obj_id = 7, chars = ''rnn''\<rparr> 12
     = (None, Some NameError)
   \<and> training_cell stub_collaborators stub_literals None \<lparr>obj_id = 7, chars = ''lstm''\<rparr> 12
     = (None, Some NameError)
   \<and> build_model stub_collaborators stub_literals None \<lparr>obj_id = 1, chars = ''lstm''\<rparr> 18
     = Inr (Some ())"
proof -
  have a: "get_n_features_thresh stub_collaborators (chars \<lparr>obj_id = n, chars = s\<rparr>) 12 = Inr (18, 1/2)"
    for n s by (simp add: stub_collaborators_def)
  have b: "load_data stub_collaborators (train_data_file 12) series_len start_feature 18
             mask_value (chars \<lparr>obj_id = n, chars = s\<rparr>) 12 = Inr ((), [0, 1, 0, 1], 4)"
    for n s by (simp add: stub_collaborators_def)
  have c: "compute_class_weight stub_collaborators [0, 1, 0, 1] = Inr [1, 1]"
    by (simp add: stub_collaborators_def)
  have d: "2 \<le> length [1, 1::real]" by simp
  show ?thesis
    using
      training_cell_dispatch [OF a [of 7 "''rnn''"] b [of 7 "''rnn''"] c d,
        where lit = stub_literals and ?model0.0 = None]
      training_cell_dispatch [OF a [of 7 "''lstm''"] b [of 7 "''lstm''"] c d,
        where lit = stub_literals and ?model0.0 = None]
      training_cell_dispatch [OF a [of 1 "''lstm''"] b [of 1 "''lstm''"] c d,
        where lit = stub_literals and ?model0.0 = None]
    by (simp add: py_is_def stub_literals_def stub_collaborators_def)
qed

text \<open>
  The claim as stated fails when the name is already bound: the string \<^verbatim>\<open>'rnn'\<close>
  is neither literal, \<^verbatim>\<open>model\<close> holds the model an earlier cell loaded, and the
  training cell ends without any exception.
\<close>

theorem training_cell_stale_model:
  "\<not> py_is \<lparr>obj_id = 7, chars = ''rnn''\<rparr> (stub_literals ''lstm'')
   \<and> \<not> py_is \<lparr>obj_id = 7, chars = ''rnn''\<rparr> (stub_literals ''gru'')
   \<and> training_cell stub_collaborators stub_literals (Some ()) \<lparr>obj_id = 7, chars = ''rnn''\<rparr> 12
       = (Some (), None)
   \<and> snd (training_cell stub_collaborators stub_literals (Some ()) \<lparr>obj_id = 7, chars = ''rnn''\<rparr> 12)
       \<noteq> Some NameError"
  by (simp add: training_cell_def build_model_def py_is_def stub_literals_def stub_collaborators_def)

section \<open>ROC statistics: properties\<close>

subsection \<open>The cumulative counts\<close>

lemma scan_lower:
  "p \<in> set (clf_curve_scan l fps tps) \<Longrightarrow> fps \<le> fst p \<and> tps \<le> fst (snd p)"
proof (induction l arbitrary: fps tps)
  case Nil
  then show ?case by simp
next
  case (Cons a rest)
  obtain s pos where a: "a = (s, pos)" by (cases a)
  let ?tps = "if pos then tps + 1 else tps"
  let ?fps = "if pos then fps else fps + 1"
  from Cons.prems have "p = (?fps, ?tps, s) \<or> p \<in> set (clf_curve_scan rest ?fps ?tps)"
    by (auto simp: a Let_def split: if_splits)
  then show ?case
  proof
    assume "p = (?fps, ?tps, s)"
    then show ?thesis by simp
  next
    assume "p \<in> set (clf_curve_scan rest ?fps ?tps)"
    from Cons.IH [OF this] show ?thesis by (simp split: if_splits)
  qed
qed

lemma scan_sorted:
  "sorted (map fst (clf_curve_scan l fps tps))
   \<and> sorted (map (fst \<circ> snd) (clf_curve_scan l fps tps))"
proof (induction l arbitrary: fps tps)
  case Nil
  then show ?case by simp
next
  case (Cons a rest)
  obtain s pos where a: "a = (s, pos)" by (cases a)
  let ?tps = "if pos then tps + 1 else tps"
  let ?fps = "if pos then fps else fps + 1"
  have low: "\<forall>p \<in> set (clf_curve_scan rest ?fps ?tps). ?fps \<le> fst p \<and> ?tps \<le> fst (snd p)"
    using scan_lower by blast
  have scan: "clf_curve_scan (a # rest) fps tps =
      (if rest = [] \<or> fst (hd rest) \<noteq> s then [(?fps, ?tps, s)] else [])
      @ clf_curve_scan rest ?fps ?tps"
    by (simp add: a Let_def)
  show ?case
    unfolding scan using Cons.IH [of ?fps ?tps] low
    by (cases pos) (auto simp: sorted_append)
qed

lemma scan_last:
  "l \<noteq> [] \<Longrightarrow>
   clf_curve_scan l fps tps \<noteq> []
   \<and> fst (last (clf_curve_scan l fps tps)) = fps + length (filter (\<lambda>p. \<not> snd p) l)
   \<and> fst (snd (last (clf_curve_scan l fps tps))) = tps + length (filter snd l)"
proof (induction l arbitrary: fps tps)
  case Nil
  then show ?case by simp
next
  case (Cons a rest)
  obtain s pos where a: "a = (s, pos)" by (cases a)
  let ?tps = "if pos then tps + 1 else tps"
  let ?fps = "if pos then fps else fps + 1"
  have scan: "clf_curve_scan (a # rest) fps tps =
      (if rest = [] \<or> fst (hd rest) \<noteq> s then [(?fps, ?tps, s)] else [])
      @ clf_curve_scan rest ?fps ?tps"
    by (simp add: a Let_def)
  show ?case
  proof (cases "rest = []")
    case True
    then show ?thesis by (simp add: a)
  next
    case False
    from Cons.IH [OF False, of ?fps ?tps] show ?thesis
      unfolding scan by (simp add: a)
  qed
qed

subsection \<open>Dropping collinear points\<close>

lemma inner_points_subset: "set (inner_points ps) \<subseteq> set ps"
  by (induction ps rule: inner_points.induct) auto

lemma inner_points_sorted:
  "sorted (map g ps) \<Longrightarrow> sorted (map g (inner_points ps))"
  for g :: "nat \<times> nat \<times> real \<Rightarrow> nat"
proof (induction ps rule: inner_points.induct)
  case (1 a b c rest)
  have ih: "sorted (map g (inner_points (b # c # rest)))"
    using 1 by simp
  have "\<forall>p \<in> set (inner_points (b # c # rest)). g b \<le> g p"
    using inner_points_subset [of "b # c # rest"] "1.prems" by auto
  with ih show ?case by (simp add: sorted_append)
qed simp_all

lemma drop_intermediate_last:
  "ps \<noteq> [] \<Longrightarrow> drop_intermediate ps \<noteq> [] \<and> last (drop_intermediate ps) = last ps"
  by (simp add: drop_intermediate_def)

lemma sorted_map_bounds:
  fixes g :: "nat \<times> nat \<times> real \<Rightarrow> nat"
  assumes "sorted (map g ps)" and "p \<in> set ps"
  shows "g (hd ps) \<le> g p \<and> g p \<le> g (last ps)"
proof -
  from assms(2) obtain i where i: "i < length ps" "ps ! i = p"
    by (auto simp: in_set_conv_nth)
  then have ne: "ps \<noteq> []" by auto
  have "map g ps ! 0 \<le> map g ps ! i"
    using assms(1) i(1) by (intro sorted_nth_mono) auto
  moreover have "map g ps ! i \<le> map g ps ! (length ps - 1)"
    using assms(1) i(1) by (intro sorted_nth_mono) auto
  ultimately show ?thesis
    using i ne by (simp add: hd_conv_nth last_conv_nth)
qed

lemma drop_intermediate_sorted:
  fixes g :: "nat \<times> nat \<times> real \<Rightarrow> nat"
  assumes "sorted (map g ps)"
  shows "sorted (map g (drop_intermediate ps))"
proof (cases "length ps > 2")
  case False
  then show ?thesis using assms by (simp add: drop_intermediate_def)
next
  case True
  then have ne: "ps \<noteq> []" by auto
  have inner: "\<forall>p \<in> set (inner_points ps). g (hd ps) \<le> g p \<and> g p \<le> g (last ps)"
    using sorted_map_bounds [OF assms] inner_points_subset [of ps] by blast
  have ends: "g (hd ps) \<le> g (last ps)"
    using sorted_map_bounds [OF assms, of "last ps"] ne by simp
  show ?thesis
    using True inner ends inner_points_sorted [OF assms]
    by (simp add: drop_intermediate_def sorted_append)
qed

subsection \<open>The trapezoidal rule\<close>

lemma trapz_bounds:
  "sorted xs \<Longrightarrow> length ys = length xs \<Longrightarrow> xs \<noteq> [] \<Longrightarrow> (\<forall>y \<in> set ys. 0 \<le> y \<and> y \<le> 1) \<Longrightarrow>
   0 \<le> trapz ys xs \<and> trapz ys xs \<le> last xs - hd xs"
proof (induction ys xs rule: trapz.induct)
  case (1 y0 y1 ys x0 x1 xs)
  have ih: "0 \<le> trapz (y1 # ys) (x1 # xs) \<and> trapz (y1 # ys) (x1 # xs) \<le> last (x1 # xs) - x1"
    using 1 by simp
  have dx: "0 \<le> x1 - x0" using "1.prems"(1) by simp
  have y: "0 \<le> (y1 + y0) / 2" "(y1 + y0) / 2 \<le> 1" using "1.prems"(4) by auto
  have lo: "0 \<le> (x1 - x0) * ((y1 + y0) / 2)"
    using dx y(1) by (rule mult_nonneg_nonneg)
  have hi: "(x1 - x0) * ((y1 + y0) / 2) \<le> (x1 - x0) * 1"
    using y(2) dx by (rule mult_left_mono)
  from ih lo hi show ?case by simp
qed (auto simp: Suc_length_conv)

subsection \<open>The points of \<open>roc_curve\<close>\<close>

lemma filter_zip_snd:
  "length xs = length bs \<Longrightarrow>
   length (filter (\<lambda>p. Q (snd p)) (zip xs bs)) = length (filter Q bs)"
  by (induction xs bs rule: list_induct2) auto

lemma desc_score_order_count:
  assumes "length y_score = length bools"
  shows "length (filter (\<lambda>p. Q (snd p)) (desc_score_order bools y_score)) = length (filter Q bools)"
proof -
  have "mset (desc_score_order bools y_score) = mset (zip y_score bools)"
    by (simp add: desc_score_order_def)
  then have "mset (filter (\<lambda>p. Q (snd p)) (desc_score_order bools y_score))
           = mset (filter (\<lambda>p. Q (snd p)) (zip y_score bools))"
    by (simp only: mset_filter)
  then have "length (filter (\<lambda>p. Q (snd p)) (desc_score_order bools y_score))
           = length (filter (\<lambda>p. Q (snd p)) (zip y_score bools))"
    by (rule mset_eq_length)
  then show ?thesis using filter_zip_snd [OF assms] by simp
qed

lemma desc_score_order_nonempty:
  "length y_score = length bools \<Longrightarrow> bools \<noteq> [] \<Longrightarrow> desc_score_order bools y_score \<noteq> []"
  by (metis desc_score_order_def length_0_conv length_rev length_sort length_zip min.idem)

lemma labels_zero_one:
  assumes "set y_true = {0, 1}"
  shows "sort (remdups y_true) = [0, 1::int]"
proof -
  have "set (sort (remdups y_true)) = set [0, 1::int]"
    using assms by simp
  then show ?thesis
    by (intro sorted_distinct_set_unique) simp_all
qed

text \<open>
  With both classes present, \<open>roc_curve\<close> returns finite rates: the counts of false and
  of true positives, each list nondecreasing from 0 to the number of negatives
  (of positives), divided by that number.
\<close>

lemma roc_curve_explicit:
  assumes len: "length y_score = length y_true" and both: "set y_true = {0, 1}"
  defines "N \<equiv> length (filter (\<lambda>y. y \<noteq> 1) y_true)"
    and "P \<equiv> length (filter (\<lambda>y. y = 1) y_true)"
    and "ps \<equiv> drop_intermediate (binary_clf_curve (map (\<lambda>y. y = 1) y_true) y_score)"
  shows "roc_curve y_true y_score =
           Inr (map (\<lambda>c. Some (real c / real N)) (0 # map fst ps),
                map (\<lambda>c. Some (real c / real P)) (0 # map (fst \<circ> snd) ps),
                (hd (map (snd \<circ> snd) ps) + 1) # map (snd \<circ> snd) ps)"
    and "sorted (0 # map fst ps)" and "sorted (0 # map (fst \<circ> snd) ps)"
    and "ps \<noteq> []"
    and "last (0 # map fst ps) = N" and "last (0 # map (fst \<circ> snd) ps) = P"
    and "0 < N" and "0 < P"
proof -
  let ?bools = "map (\<lambda>y. y = 1) y_true"
  let ?l = "desc_score_order ?bools y_score"
  let ?fps = "0 # map fst ps"
  let ?tps = "0 # map (fst \<circ> snd) ps"
  have ne_y: "y_true \<noteq> []" using both by auto
  have len': "length y_score = length ?bools" using len by simp
  have l_ne: "?l \<noteq> []"
    using desc_score_order_nonempty [OF len'] ne_y by simp
  have negs: "length (filter (\<lambda>p. \<not> snd p) ?l) = N"
    using desc_score_order_count [OF len', of "\<lambda>b. \<not> b"]
    by (simp add: N_def filter_map comp_def)
  have poss: "length (filter snd ?l) = P"
    using desc_score_order_count [OF len', of "\<lambda>b. b"]
    by (simp add: P_def filter_map comp_def)
  show N: "0 < N"
  proof -
    have "0 \<in> set y_true" using both by simp
    then have "filter (\<lambda>y. y \<noteq> 1) y_true \<noteq> []"
      by (auto simp: filter_empty_conv intro!: bexI [of _ 0])
    then show ?thesis by (simp add: N_def)
  qed
  show P: "0 < P"
  proof -
    have "1 \<in> set y_true" using both by simp
    then have "filter (\<lambda>y. y = 1) y_true \<noteq> []"
      by (auto simp: filter_empty_conv intro!: bexI [of _ 1])
    then show ?thesis by (simp add: P_def)
  qed
  have scan_ne: "binary_clf_curve ?bools y_score \<noteq> []"
    and scan_f: "fst (last (binary_clf_curve ?bools y_score)) = N"
    and scan_t: "fst (snd (last (binary_clf_curve ?bools y_score))) = P"
    using scan_last [OF l_ne, of 0 0] negs poss by (simp_all add: binary_clf_curve_def)
  show ps_ne: "ps \<noteq> []"
    using drop_intermediate_last [OF scan_ne] by (simp add: ps_def)
  have ps_last: "last ps = last (binary_clf_curve ?bools y_score)"
    using drop_intermediate_last [OF scan_ne] by (simp add: ps_def)
  have sf: "sorted (map fst ps)"
    unfolding ps_def using scan_sorted [of ?l 0 0]
    by (intro drop_intermediate_sorted) (simp add: binary_clf_curve_def)
  have st: "sorted (map (fst \<circ> snd) ps)"
    unfolding ps_def using scan_sorted [of ?l 0 0]
    by (intro drop_intermediate_sorted) (simp add: binary_clf_curve_def)
  show last_f: "last ?fps = N"
    using ps_ne ps_last scan_f by (simp add: last_map)
  show last_t: "last ?tps = P"
    using ps_ne ps_last scan_t by (simp add: last_map)
  have rate_f: "rate ?fps = map (\<lambda>c. Some (real c / real N)) ?fps"
    unfolding rate_def last_f using N by simp
  have rate_t: "rate ?tps = map (\<lambda>c. Some (real c / real P)) ?tps"
    unfolding rate_def last_t using P by simp
  have lab: "sort (remdups y_true) = [0, 1]"
    using labels_zero_one [OF both] .
  show "roc_curve y_true y_score =
          Inr (map (\<lambda>c. Some (real c / real N)) ?fps,
               map (\<lambda>c. Some (real c / real P)) ?tps,
               (hd (map (snd \<circ> snd) ps) + 1) # map (snd \<circ> snd) ps)"
    unfolding roc_curve_def Let_def ps_def [symmetric] rate_f rate_t using len lab by simp
  show "sorted ?fps" using sf by simp
  show "sorted ?tps" using st by simp
qed

lemma roc_curve_counts:
  assumes len: "length y_score = length y_true" and both: "set y_true = {0, 1}"
  shows "\<exists>fps tps thresholds.
           roc_curve y_true y_score =
             Inr (map (\<lambda>c. Some (real c / real (length (filter (\<lambda>y. y \<noteq> 1) y_true)))) fps,
                  map (\<lambda>c. Some (real c / real (length (filter (\<lambda>y. y = 1) y_true)))) tps,
                  thresholds)
         \<and> sorted fps \<and> sorted tps \<and> length tps = length fps \<and> 2 \<le> length fps
         \<and> hd fps = 0 \<and> last fps = length (filter (\<lambda>y. y \<noteq> 1) y_true)
         \<and> hd tps = 0 \<and> last tps = length (filter (\<lambda>y. y = 1) y_true)
         \<and> 0 < length (filter (\<lambda>y. y \<noteq> 1) y_true) \<and> 0 < length (filter (\<lambda>y. y = 1) y_true)"
proof -
  let ?ps = "drop_intermediate (binary_clf_curve (map (\<lambda>y. y = 1) y_true) y_score)"
  note e = roc_curve_explicit [OF len both]
  have "length (0 # map (fst \<circ> snd) ?ps) = length (0 # map fst ?ps)" by simp
  moreover have "2 \<le> length (0 # map fst ?ps)" using e(4) by (cases ?ps) simp_all
  moreover have "hd (0 # map fst ?ps) = 0" "hd (0 # map (fst \<circ> snd) ?ps) = 0" by simp_all
  ultimately show ?thesis
    using e(1,2,3,5,6,7,8) by blast
qed

subsection \<open>The area under the points\<close>

lemma sorted_steps:
  "sorted xs \<Longrightarrow> (b, a) \<in> set (zip (tl xs) xs) \<Longrightarrow> a \<le> b"
  for xs :: "real list"
proof (induction xs)
  case Nil
  then show ?case by simp
next
  case (Cons x xs)
  show ?case
  proof (cases xs)
    case Nil
    with Cons.prems show ?thesis by simp
  next
    case (Cons y ys)
    with Cons.prems Cons.IH show ?thesis by auto
  qed
qed

lemma those_map_Some: "those (map Some xs) = Some xs"
  by (induction xs) simp_all

lemma auc_finite:
  assumes "sorted xs" and "length ys = length xs" and "2 \<le> length xs"
  shows "auc (map Some xs) (map Some ys) = Inr (Some (trapz ys xs))"
proof -
  have diff: "np_diff (map Some xs) = map (\<lambda>(b, a). Some (b - a)) (zip (tl xs) xs)"
    by (simp add: np_diff_def map_tl [symmetric] zip_map_map split_def)
  have "\<not> list_ex np_lt0 (np_diff (map Some xs))"
    unfolding diff
    by (auto simp: list_ex_iff np_lt0_def dest!: sorted_steps [OF assms(1)])
  then show ?thesis
    using assms(2,3) by (simp add: auc_def Let_def np_trapz_def those_map_Some)
qed

lemma sorted_scaled:
  "sorted cs \<Longrightarrow> sorted (map (\<lambda>c. real c / real n) cs)"
  by (induction cs) (auto simp: divide_right_mono)

lemma roc_auc_score_two_classes:
  assumes len: "length y_score = length y_true" and both: "set y_true = {0, 1}"
  shows "\<exists>a. roc_auc_score y_true y_score = Inr (Some a) \<and> 0 \<le> a \<and> a \<le> 1"
proof -
  let ?N = "length (filter (\<lambda>y. y \<noteq> 1) y_true)"
  let ?P = "length (filter (\<lambda>y. y = 1) y_true)"
  from roc_curve_counts [OF len both] obtain fps tps thresholds where
    rc: "roc_curve y_true y_score =
           Inr (map (\<lambda>c. Some (real c / real ?N)) fps,
                map (\<lambda>c. Some (real c / real ?P)) tps, thresholds)"
    and s: "sorted fps" "sorted tps" and l: "length tps = length fps" "2 \<le> length fps"
    and ends: "hd fps = 0" "last fps = ?N" "hd tps = 0" "last tps = ?P"
    and pos: "0 < ?N" "0 < ?P"
    by blast
  let ?xs = "map (\<lambda>c. real c / real ?N) fps"
  let ?ys = "map (\<lambda>c. real c / real ?P) tps"
  have fps_ne: "fps \<noteq> []" and tps_ne: "tps \<noteq> []" using l by auto
  have lab: "sort (remdups y_true) = [0, 1]"
    using labels_zero_one [OF both] .
  have bin: "map (\<lambda>y. if y = 1 then 1 else 0) y_true = y_true"
    using both by (intro map_idI) auto
  have score: "roc_auc_score y_true y_score = auc (map Some ?xs) (map Some ?ys)"
    using len rc by (simp add: roc_auc_score_def Let_def lab bin comp_def)
  have sx: "sorted ?xs" using s(1) by (rule sorted_scaled)
  have a: "auc (map Some ?xs) (map Some ?ys) = Inr (Some (trapz ?ys ?xs))"
    using l by (intro auc_finite [OF sx]) simp_all
  have ybound: "\<forall>y \<in> set ?ys. 0 \<le> y \<and> y \<le> 1"
  proof
    fix y assume "y \<in> set ?ys"
    then obtain c where c: "c \<in> set tps" and y: "y = real c / real ?P" by auto
    from c obtain i where i: "i < length tps" "tps ! i = c"
      by (auto simp: in_set_conv_nth)
    have "tps ! i \<le> tps ! (length tps - 1)"
      using s(2) i(1) by (intro sorted_nth_mono) auto
    then have "c \<le> ?P"
      using ends(4) i tps_ne by (simp add: last_conv_nth)
    then show "0 \<le> y \<and> y \<le> 1"
      using pos(2) by (simp add: y)
  qed
  have "0 \<le> trapz ?ys ?xs \<and> trapz ?ys ?xs \<le> last ?xs - hd ?xs"
    using sx l fps_ne ybound by (intro trapz_bounds) simp_all
  moreover have "last ?xs = 1" "hd ?xs = 0"
    using fps_ne ends pos by (simp_all add: last_map hd_map)
  ultimately show ?thesis
    using score a by simp
qed

lemma roc_auc_score_one_class:
  assumes "card (set y_true) \<noteq> 2"
  shows "roc_auc_score y_true y_score = Inl ValueError"
proof -
  have "length (sort (remdups y_true)) = card (set y_true)"
    by (simp add: length_remdups_card_conv)
  with assms show ?thesis by (simp add: roc_auc_score_def Let_def)
qed

text \<open>
  C3. When the ground truth of a configuration holds one class only (all 0 or all 1),
  the score raises \<^verbatim>\<open>ValueError\<close>, and so does the analysis of that configuration:
  no default value is returned. When the ground truth holds both classes, the score is a
  finite number in \<open>[0, 1]\<close>.
\<close>

theorem auroc_flagged_or_bounded:
  "(set y_test = {0} \<or> set y_test = {1} \<longrightarrow>
      roc_auc_score y_test (map real_of_int preds) = Inl ValueError
    \<and> roc_line name (y_test, preds) = Inl ValueError
    \<and> analysis_cell [(name, y_test, preds)] = ([], Some ValueError))
   \<and> (set y_test = {0, 1} \<and> length preds = length y_test \<longrightarrow>
      (\<exists>a. roc_auc_score y_test (map real_of_int preds) = Inr (Some a) \<and> 0 \<le> a \<and> a \<le> 1))"
proof (intro conjI impI)
  assume one: "set y_test = {0} \<or> set y_test = {1}"
  then have "card (set y_test) \<noteq> 2" by auto
  then show e: "roc_auc_score y_test (map real_of_int preds) = Inl ValueError"
    by (rule roc_auc_score_one_class)
  then show l: "roc_line name (y_test, preds) = Inl ValueError"
    by (simp add: roc_line_def)
  then show "analysis_cell [(name, y_test, preds)] = ([], Some ValueError)"
    by (simp add: analysis_cell_def)
next
  assume "set y_test = {0, 1} \<and> length preds = length y_test"
  then show "\<exists>a. roc_auc_score y_test (map real_of_int preds) = Inr (Some a) \<and> 0 \<le> a \<and> a \<le> 1"
    by (intro roc_auc_score_two_classes) simp_all
qed

theorem auroc_flagged_or_bounded_witness:
  "roc_auc_score [0, 0, 0, 0] (map real_of_int [0, 1, 1, 0]) = Inl ValueError
   \<and> analysis_cell [(''gru 12'', [0, 0, 0, 0], [0, 1, 1, 0])] = ([], Some ValueError)
   \<and> (\<exists>a. roc_auc_score [0, 1, 0, 1] (map real_of_int [0, 1, 1, 0]) = Inr (Some a)
          \<and> 0 \<le> a \<and> a \<le> 1)"
  using auroc_flagged_or_bounded [of "[0, 0, 0, 0]" "[0, 1, 1, 0]" "''gru 12''"]
    auroc_flagged_or_bounded [of "[0, 1, 0, 1]" "[0, 1, 1, 0]" "''gru 12''"]
  by (simp add: insert_commute)

lemma auroc_scenarios:
  "roc_auc_score [0, 1, 0, 1] (map real_of_int (bc [1/10, 9/10, 6/10, 4/10] (1/2))) = Inr (Some (1/2))
   \<and> roc_auc_score [0, 0, 1, 1] (map real_of_int (bc [1/10, 2/10, 8/10, 9/10] (1/2))) = Inr (Some 1)"
  unfolding bc_scenario bc_separated by code_simp

section \<open>The analysis cell: properties\<close>

lemma analysis_loop_completes:
  "snd (analysis_loop items plotted) = None \<longleftrightarrow> (\<forall>(name, entry) \<in> set items. \<not> isl (roc_line name entry))"
proof (induction items arbitrary: plotted)
  case Nil
  then show ?case by simp
next
  case (Cons item items)
  obtain name entry where item: "item = (name, entry)" by (cases item)
  show ?case
    using Cons.IH by (cases "roc_line name entry") (simp_all add: item)
qed

lemma analysis_loop_lines:
  "snd (analysis_loop items plotted) = None \<Longrightarrow>
   fst (analysis_loop items plotted) =
     plotted @ map (\<lambda>(name, entry). (name, projr (roc_line name entry))) items"
proof (induction items arbitrary: plotted)
  case Nil
  then show ?case by simp
next
  case (Cons item items)
  obtain name entry where item: "item = (name, entry)" by (cases item)
  show ?case
  proof (cases "roc_line name entry")
    case (Inl e)
    with Cons.prems show ?thesis by (simp add: item)
  next
    case (Inr line)
    with Cons.prems Cons.IH [of "plotted @ [(name, line)]"] show ?thesis
      by (simp add: item)
  qed
qed

lemma analysis_loop_prefix:
  "\<exists>reached. fst (analysis_loop items plotted) =
     plotted @ map (\<lambda>(name, entry). (name, projr (roc_line name entry))) reached
   \<and> (\<exists>rest. items = reached @ rest)
   \<and> (\<forall>(name, entry) \<in> set reached. \<not> isl (roc_line name entry))"
proof (induction items arbitrary: plotted)
  case Nil
  show ?case by simp
next
  case (Cons item items)
  obtain name entry where item: "item = (name, entry)" by (cases item)
  show ?case
  proof (cases "roc_line name entry")
    case (Inl e)
    have "fst (analysis_loop (item # items) plotted) =
            plotted @ map (\<lambda>(name, entry). (name, projr (roc_line name entry))) []
          \<and> (\<exists>rest. item # items = [] @ rest)
          \<and> (\<forall>(name, entry) \<in> set []. \<not> isl (roc_line name entry))"
      using Inl by (simp add: item)
    then show ?thesis by blast
  next
    case (Inr line)
    from Cons.IH [of "plotted @ [(name, line)]"] obtain reached where
      r: "fst (analysis_loop items (plotted @ [(name, line)])) =
            (plotted @ [(name, line)]) @ map (\<lambda>(name, entry). (name, projr (roc_line name entry))) reached"
        "\<exists>rest. items = reached @ rest"
        "\<forall>(name, entry) \<in> set reached. \<not> isl (roc_line name entry)"
      by blast
    have "fst (analysis_loop (item # items) plotted) =
            plotted @ map (\<lambda>(name, entry). (name, projr (roc_line name entry))) (item # reached)
          \<and> (\<exists>rest. item # items = (item # reached) @ rest)
          \<and> (\<forall>(name, entry) \<in> set (item # reached). \<not> isl (roc_line name entry))"
      using r Inr by (auto simp: item)
    then show ?thesis by blast
  qed
qed

lemma map_of_lines:
  assumes "distinct (map fst items)" and "(name, entry) \<in> set items"
  shows "map_of (map (\<lambda>(name, entry). (name, projr (roc_line name entry))) items) name
           = Some (projr (roc_line name entry))"
proof -
  have "map_of (map (\<lambda>(name, entry). (name, projr (roc_line name entry))) items) name
      = map_option (\<lambda>entry. projr (roc_line name entry)) (map_of items name)"
    by (induction items) auto
  then show ?thesis using assms by simp
qed

lemma computed_metrics_own_entry:
  assumes keys: "distinct (map fst results)"
    and line: "computed_metrics results name = Some line"
  shows "\<exists>entry. map_of results name = Some entry \<and> roc_line name entry = Inr line"
proof -
  let ?f = "\<lambda>(name, entry). (name, projr (roc_line name entry))"
  from analysis_loop_prefix [of results "[]"] obtain reached rest where
    lines: "fst (analysis_cell results) = map ?f reached"
    and split: "results = reached @ rest"
    and ok: "\<forall>(name, entry) \<in> set reached. \<not> isl (roc_line name entry)"
    by (auto simp: analysis_cell_def)
  from line have "(name, line) \<in> set (map ?f reached)"
    unfolding computed_metrics_def lines by (rule map_of_SomeD)
  then obtain entry where entry: "(name, entry) \<in> set reached"
    and l: "line = projr (roc_line name entry)"
    by auto
  from ok entry have "\<not> isl (roc_line name entry)" by auto
  then have "roc_line name entry = Inr line"
    unfolding l by (cases "roc_line name entry") simp_all
  moreover have "map_of results name = Some entry"
    using keys entry split by (intro map_of_is_SomeI) auto
  ultimately show ?thesis by blast
qed

text \<open>
  C6 (as amended). Let two runs of the analysis cell see the same stored results in
  different orders. Whatever metrics a run computes for a configuration are computed from
  that configuration's own entry alone, so the two runs agree on every configuration both
  of them reach; and when one run completes without an exception, so does the other, and
  every configuration has the same metrics in both.
\<close>

theorem analysis_order_independent:
  assumes perm: "mset results' = mset results" and keys: "distinct (map fst results)"
  shows "(snd (analysis_cell results) = None \<longrightarrow>
            snd (analysis_cell results') = None
          \<and> (\<forall>name. computed_metrics results' name = computed_metrics results name))
       \<and> (\<forall>name line. computed_metrics results name = Some line \<longrightarrow>
            (\<exists>entry. map_of results name = Some entry \<and> roc_line name entry = Inr line))
       \<and> (\<forall>name line line'. computed_metrics results name = Some line
                             \<and> computed_metrics results' name = Some line' \<longrightarrow> line' = line)"
proof -
  let ?f = "\<lambda>(name, entry). (name, projr (roc_line name entry))"
  have sets: "set results' = set results"
    using perm by (rule mset_eq_setD)
  have "mset (map fst results') = mset (map fst results)"
    using perm by simp
  then have keys': "distinct (map fst results')"
    using keys mset_eq_imp_distinct_iff by blast
  have same_map: "map_of results' = map_of results"
    using keys keys' sets by (simp add: map_of_inject_set)
  have own: "\<exists>entry. map_of results name = Some entry \<and> roc_line name entry = Inr line"
    if "computed_metrics results name = Some line" for name line
    using computed_metrics_own_entry [OF keys that] .
  have own': "\<exists>entry. map_of results name = Some entry \<and> roc_line name entry = Inr line"
    if "computed_metrics results' name = Some line" for name line
    using computed_metrics_own_entry [OF keys' that] same_map by simp
  have agree: "line' = line"
    if "computed_metrics results name = Some line \<and> computed_metrics results' name = Some line'"
    for name line line'
    using own [of name line] own' [of name line'] that by auto
  have complete: "snd (analysis_cell results') = None
          \<and> (\<forall>name. computed_metrics results' name = computed_metrics results name)"
    if fin: "snd (analysis_cell results) = None"
  proof -
    have all: "\<forall>(name, entry) \<in> set results. \<not> isl (roc_line name entry)"
      using fin by (simp add: analysis_cell_def analysis_loop_completes)
    then have fin': "snd (analysis_cell results') = None"
      using sets by (simp add: analysis_cell_def analysis_loop_completes)
    have l: "fst (analysis_cell results) = map ?f results"
      using analysis_loop_lines [of results "[]"] fin by (simp add: analysis_cell_def)
    have l': "fst (analysis_cell results') = map ?f results'"
      using analysis_loop_lines [of results' "[]"] fin' by (simp add: analysis_cell_def)
    have d: "distinct (map fst (map ?f results))" "distinct (map fst (map ?f results'))"
      using keys keys' by (simp_all add: comp_def split_def)
    have "map_of (map ?f results') = map_of (map ?f results)"
      using d sets by (simp add: map_of_inject_set)
    then have "computed_metrics results' name = computed_metrics results name" for name
      by (simp add: computed_metrics_def l l')
    with fin' show ?thesis by blast
  qed
  from own agree complete show ?thesis by blast
qed

lemma two_entries_run:
  "snd (analysis_cell [(''gru 12'', [0, 1, 0, 1], [0, 1, 1, 0]), (''lstm 12'', [0, 0, 1, 1], [0, 0, 1, 1])]) = None"
  by code_simp

theorem analysis_order_independent_witness:
  "mset [(''lstm 12'', [0, 0, 1, 1], [0, 0, 1, 1]), (''gru 12'', [0, 1, 0, 1], [0, 1, 1, 0])]
     = mset [(''gru 12'', [0, 1, 0, 1], [0, 1, 1, 0]), (''lstm 12'', [0, 0, 1, 1], [0, 0, 1, 1::int])]
   \<and> snd (analysis_cell
        [(''lstm 12'', [0, 0, 1, 1], [0, 0, 1, 1]), (''gru 12'', [0, 1, 0, 1], [0, 1, 1, 0])]) = None
   \<and> computed_metrics
        [(''lstm 12'', [0, 0, 1, 1], [0, 0, 1, 1]), (''gru 12'', [0, 1, 0, 1], [0, 1, 1, 0])] ''gru 12''
     = computed_metrics
        [(''gru 12'', [0, 1, 0, 1], [0, 1, 1, 0]), (''lstm 12'', [0, 0, 1, 1], [0, 0, 1, 1])] ''gru 12''"
proof -
  let ?R = "[(''gru 12'', [0, 1, 0, 1], [0, 1, 1, 0]), (''lstm 12'', [0, 0, 1, 1], [0, 0, 1, 1::int])]"
  let ?R' = "[(''lstm 12'', [0, 0, 1, 1], [0, 0, 1, 1]), (''gru 12'', [0, 1, 0, 1], [0, 1, 1, 0::int])]"
  have p: "mset ?R' = mset ?R" by (simp add: add_mset_commute)
  have k: "distinct (map fst ?R)" by simp
  from analysis_order_independent [OF p k] two_entries_run p show ?thesis
    by simp
qed

text \<open>
  The claim as stated fails when a stored ground truth holds one class only: that
  configuration stops the loop, so a configuration placed after it gets no metrics, and
  placed before it gets them.
\<close>

theorem analysis_order_dependent:
  "mset [(''lstm 12'', [0, 0, 0, 0], [0, 1, 1, 0]), (''gru 12'', [0, 1, 0, 1], [0, 1, 1, 0])]
     = mset [(''gru 12'', [0, 1, 0, 1], [0, 1, 1, 0]), (''lstm 12'', [0, 0, 0, 0], [0, 1, 1, 0::int])]
   \<and> computed_metrics
        [(''lstm 12'', [0, 0, 0, 0], [0, 1, 1, 0]), (''gru 12'', [0, 1, 0, 1], [0, 1, 1, 0])] ''gru 12''
     = None
   \<and> computed_metrics
        [(''gru 12'', [0, 1, 0, 1], [0, 1, 1, 0]), (''lstm 12'', [0, 0, 0, 0], [0, 1, 1, 0])] ''gru 12''
     = Some \<lparr>line_fpr = [Some 0, Some (1/2), Some 1], line_tpr = [Some 0, Some (1/2), Some 1],
             line_label = ''GRU 12 Hour (AUROC = 0.500)''\<rparr>"
proof -
  have "mset [(''lstm 12'', [0, 0, 0, 0], [0, 1, 1, 0]), (''gru 12'', [0, 1, 0, 1], [0, 1, 1, 0])]
     = mset [(''gru 12'', [0, 1, 0, 1], [0, 1, 1, 0]), (''lstm 12'', [0, 0, 0, 0], [0, 1, 1, 0::int])]"
    by (simp add: add_mset_commute)
  moreover have "computed_metrics
        [(''lstm 12'', [0, 0, 0, 0], [0, 1, 1, 0]), (''gru 12'', [0, 1, 0, 1], [0, 1, 1, 0])] ''gru 12''
     = None"
    by code_simp
  moreover have "computed_metrics
        [(''gru 12'', [0, 1, 0, 1], [0, 1, 1, 0]), (''lstm 12'', [0, 0, 0, 0], [0, 1, 1, 0])] ''gru 12''
     = Some \<lparr>line_fpr = [Some 0, Some (1/2), Some 1], line_tpr = [Some 0, Some (1/2), Some 1],
             line_label = ''GRU 12 Hour (AUROC = 0.500)''\<rparr>"
    by code_simp
  ultimately show ?thesis by blast
qed

section \<open>The ROC curve of a configuration\<close>

subsection \<open>The cumulative counts are a threshold sweep\<close>

lemma desc_values_Cons:
  fixes s :: real
  assumes "\<forall>x \<in> set xs. x \<le> s"
  shows "rev (sort (remdups (s # xs))) =
           (if s \<in> set xs then rev (sort (remdups xs)) else s # rev (sort (remdups xs)))"
proof (cases "s \<in> set xs")
  case True
  then show ?thesis by simp
next
  case False
  have "insort s (sort (remdups xs)) = sort (remdups xs) @ [s]"
    using assms by (intro sorted_insort_is_snoc) simp_all
  with False show ?thesis by simp
qed

lemma desc_head:
  fixes s :: real
  assumes "sorted (rev (map fst rest))" and "\<forall>x \<in> set rest. fst x \<le> s"
  shows "(rest = [] \<or> fst (hd rest) \<noteq> s) \<longleftrightarrow> s \<notin> fst ` set rest"
proof (cases rest)
  case Nil
  then show ?thesis by simp
next
  case (Cons h t)
  have below: "\<forall>x \<in> set t. fst x \<le> fst h"
    using assms(1) by (auto simp: Cons sorted_append)
  show ?thesis
  proof (cases "fst h = s")
    case True
    then show ?thesis by (auto simp: Cons image_iff)
  next
    case False
    then have "fst h < s" using assms(2) by (auto simp: Cons)
    with below have "\<forall>x \<in> set rest. fst x < s"
      by (auto simp: Cons)
    then have "s \<notin> fst ` set rest" by auto
    with False show ?thesis by (simp add: Cons)
  qed
qed

lemma scan_sweep:
  assumes "sorted (rev (map fst l))"
  shows "clf_curve_scan l fps tps =
           map (\<lambda>v. (fps + length (filter (\<lambda>p. fst p \<ge> v \<and> \<not> snd p) l),
                     tps + length (filter (\<lambda>p. fst p \<ge> v \<and> snd p) l), v))
               (rev (sort (remdups (map fst l))))"
  using assms
proof (induction l arbitrary: fps tps)
  case Nil
  then show ?case by simp
next
  case (Cons a rest)
  obtain s pos where a: "a = (s, pos)" by (cases a)
  let ?tps = "if pos then tps + 1 else tps"
  let ?fps = "if pos then fps else fps + 1"
  let ?D = "rev (sort (remdups (map fst rest)))"
  let ?row = "\<lambda>l fps tps v. (fps + length (filter (\<lambda>p. fst p \<ge> v \<and> \<not> snd p) l),
                     tps + length (filter (\<lambda>p. fst p \<ge> v \<and> snd p) l), v)"
  have srest: "sorted (rev (map fst rest))" and below: "\<forall>x \<in> set rest. fst x \<le> s"
    using Cons.prems by (auto simp: a sorted_append)
  have below': "\<forall>x \<in> set (map fst rest). x \<le> s"
    using below by auto
  have scan: "clf_curve_scan (a # rest) fps tps =
      (if rest = [] \<or> fst (hd rest) \<noteq> s then [(?fps, ?tps, s)] else [])
      @ clf_curve_scan rest ?fps ?tps"
    by (simp add: a Let_def)
  have ih: "clf_curve_scan rest ?fps ?tps = map (?row rest ?fps ?tps) ?D"
    using Cons.IH [OF srest] .
  have shift: "map (?row rest ?fps ?tps) ?D = map (?row (a # rest) fps tps) ?D"
  proof (rule map_cong [OF refl])
    fix v
    assume "v \<in> set ?D"
    then have "v \<le> s" using below by auto
    then show "?row rest ?fps ?tps v = ?row (a # rest) fps tps v"
      by (simp add: a)
  qed
  have vals: "rev (sort (remdups (map fst (a # rest)))) =
      (if s \<in> fst ` set rest then ?D else s # ?D)"
    using desc_values_Cons [OF below'] by (simp add: a)
  show ?case
  proof (cases "s \<in> fst ` set rest")
    case True
    then have "\<not> (rest = [] \<or> fst (hd rest) \<noteq> s)"
      using desc_head [OF srest below] by simp
    then show ?thesis
      unfolding scan vals ih shift using True by simp
  next
    case False
    then have head: "rest = [] \<or> fst (hd rest) \<noteq> s"
      using desc_head [OF srest below] by simp
    have none: "filter (\<lambda>p. fst p \<ge> s \<and> Q (snd p)) rest = []" for Q
      using False below by (auto simp: filter_empty_conv image_iff) force
    have first: "(?fps, ?tps, s) = ?row (a # rest) fps tps s"
      by (simp add: a none [of "\<lambda>b. \<not> b"] none [of "\<lambda>b. b"])
    show ?thesis
      unfolding scan vals ih shift using False head first by simp
  qed
qed

lemma sort_remdups_cong: "set xs = set ys \<Longrightarrow> sort (remdups xs) = sort (remdups ys)"
  for xs :: "real list"
  by (intro sorted_distinct_set_unique) simp_all

lemma length_filter_mset: "mset xs = mset ys \<Longrightarrow> length (filter Q xs) = length (filter Q ys)"
proof -
  assume "mset xs = mset ys"
  then have "mset (filter Q xs) = mset (filter Q ys)" by (simp only: mset_filter)
  then show ?thesis by (rule mset_eq_length)
qed

lemma binary_clf_curve_sweep:
  assumes "length y_score = length bools"
  shows "binary_clf_curve bools y_score =
           map (\<lambda>v. (length (filter (\<lambda>p. fst p \<ge> v \<and> \<not> snd p) (zip y_score bools)),
                     length (filter (\<lambda>p. fst p \<ge> v \<and> snd p) (zip y_score bools)), v))
               (rev (sort (remdups y_score)))"
proof -
  let ?l = "desc_score_order bools y_score"
  have m: "mset ?l = mset (zip y_score bools)"
    by (simp add: desc_score_order_def)
  have "rev (map fst ?l) = map fst (sort_key fst (zip y_score bools))"
    by (simp add: desc_score_order_def rev_map)
  then have s: "sorted (rev (map fst ?l))"
    by (simp only: sorted_sort_key)
  have "set (map fst ?l) = set (map fst (zip y_score bools))"
    by (simp add: desc_score_order_def)
  also have "map fst (zip y_score bools) = y_score"
    using assms by simp
  finally have d: "sort (remdups (map fst ?l)) = sort (remdups y_score)"
    by (rule sort_remdups_cong)
  show ?thesis
    unfolding binary_clf_curve_def scan_sweep [OF s] d
    by (simp add: length_filter_mset [OF m])
qed

subsection \<open>The curve the analysis cell plots\<close>

lemma bc_scores_values: "set (map real_of_int (bc prob threshold)) \<subseteq> {0, 1}"
  using set_bc [of prob threshold] by auto

lemma at_most_two_values:
  assumes "set xs \<subseteq> {0, 1::real}"
  shows "length (rev (sort (remdups xs))) \<le> 2"
proof -
  have "card (set xs) \<le> card {0, 1::real}"
    using assms by (intro card_mono) simp_all
  then show ?thesis by (simp add: length_remdups_card_conv)
qed

lemma count_at_negatives:
  assumes "set y_true \<subseteq> {0, 1}"
  shows "length (filter (\<lambda>p. fst p \<ge> v \<and> \<not> snd p) (zip y_score (map (\<lambda>y. y = 1) y_true)))
           = count_at y_true y_score 0 v"
proof -
  have "length (filter (\<lambda>p. fst p \<ge> v \<and> \<not> snd p) (zip y_score (map (\<lambda>y. y = 1) y_true)))
      = length (filter (\<lambda>p. fst p \<ge> v \<and> snd p \<noteq> 1) (zip y_score y_true))"
    by (simp add: zip_map2 filter_map comp_def split_def)
  also have "filter (\<lambda>p. fst p \<ge> v \<and> snd p \<noteq> 1) (zip y_score y_true)
           = filter (\<lambda>(p, y). p \<ge> v \<and> y = 0) (zip y_score y_true)"
    using assms by (intro filter_cong) (auto dest!: set_zip_rightD)
  finally show ?thesis by (simp add: count_at_def)
qed

lemma count_at_positives:
  "length (filter (\<lambda>p. fst p \<ge> v \<and> snd p) (zip y_score (map (\<lambda>y. y = 1) y_true)))
     = count_at y_true y_score 1 v"
  by (simp add: zip_map2 filter_map comp_def split_def count_at_def)

lemma count_list_negatives:
  fixes y_true :: "int list"
  assumes "set y_true \<subseteq> {0, 1}"
  shows "length (filter (\<lambda>y. y \<noteq> 1) y_true) = count_list y_true 0"
proof -
  have "filter (\<lambda>y. y \<noteq> 1) y_true = filter ((=) 0) y_true"
  proof (rule filter_cong [OF refl])
    fix y
    assume "y \<in> set y_true"
    with assms have "y = 0 \<or> y = 1" by blast
    then show "(y \<noteq> 1) = (0 = y)" by (elim disjE) simp_all
  qed
  then show ?thesis by (simp only: count_list_eq_length_filter)
qed

lemma count_list_positives: "length (filter (\<lambda>y. y = 1) y_true) = count_list y_true (1::int)"
proof -
  have "filter (\<lambda>y. y = 1) y_true = filter ((=) 1) y_true"
    by (rule filter_cong [OF refl]) (rule eq_commute)
  then show ?thesis by (simp only: count_list_eq_length_filter)
qed

lemma roc_curve_small_sweep:
  assumes len: "length y_score = length y_true" and both: "set y_true = {0, 1}"
    and few: "length (rev (sort (remdups y_score))) \<le> 2"
  shows "\<exists>thresholds.
           roc_curve y_true y_score =
             Inr (Some 0 # map (Some \<circ> fst) (roc_sweep_spec y_true y_score),
                  Some 0 # map (Some \<circ> snd) (roc_sweep_spec y_true y_score), thresholds)"
proof -
  let ?bools = "map (\<lambda>y. y = 1) y_true"
  let ?D = "rev (sort (remdups y_score))"
  let ?N = "length (filter (\<lambda>y. y \<noteq> 1) y_true)"
  let ?P = "length (filter (\<lambda>y. y = 1) y_true)"
  have sub: "set y_true \<subseteq> {0, 1}" using both by simp
  have curve: "binary_clf_curve ?bools y_score =
      map (\<lambda>v. (count_at y_true y_score 0 v, count_at y_true y_score 1 v, v)) ?D"
    using binary_clf_curve_sweep [of y_score ?bools] len
    by (simp add: count_at_negatives [OF sub] count_at_positives)
  have "length (binary_clf_curve ?bools y_score) \<le> 2"
    unfolding curve using few by simp
  then have keep: "drop_intermediate (binary_clf_curve ?bools y_score) = binary_clf_curve ?bools y_score"
    by (simp add: drop_intermediate_def)
  have N: "?N = count_list y_true 0" using count_list_negatives [OF sub] .
  have P: "?P = count_list y_true 1" using count_list_positives .
  note e = roc_curve_explicit(1) [OF len both]
  have "roc_curve y_true y_score =
          Inr (Some 0 # map (Some \<circ> fst) (roc_sweep_spec y_true y_score),
               Some 0 # map (Some \<circ> snd) (roc_sweep_spec y_true y_score),
               (hd (map (snd \<circ> snd) (binary_clf_curve ?bools y_score)) + 1)
                 # map (snd \<circ> snd) (binary_clf_curve ?bools y_score))"
    unfolding e keep unfolding curve N P
    by (simp add: roc_sweep_spec_def comp_def)
  then show ?thesis by blast
qed

text \<open>
  C2 (as amended). For every configuration whose ground truth holds both classes, the
  ROC curve the analysis cell computes is the point \<open>(0, 0)\<close> followed by the
  (false-positive rate, true-positive rate) pairs obtained by sweeping the decision
  threshold over the distinct values of the binarized predictions, from the largest to the
  smallest: at most two points after the origin. The raw probabilities enter only through
  their thresholding.
\<close>

theorem config_roc_binarized_sweep:
  assumes "length prob = length y_test" and "set y_test = {0, 1}"
  shows "config_roc y_test prob threshold =
           Inr ((Some 0, Some 0)
                # map (\<lambda>(f, t). (Some f, Some t))
                      (roc_sweep_spec y_test (map real_of_int (bc prob threshold))))
       \<and> length (roc_sweep_spec y_test (map real_of_int (bc prob threshold))) \<le> 2"
proof -
  let ?scores = "map real_of_int (bc prob threshold)"
  have len: "length ?scores = length y_test"
    using assms(1) by (simp add: length_bc)
  have few: "length (rev (sort (remdups ?scores))) \<le> 2"
    using bc_scores_values by (rule at_most_two_values)
  from roc_curve_small_sweep [OF len assms(2) few] obtain thresholds where
    "roc_curve y_test ?scores =
       Inr (Some 0 # map (Some \<circ> fst) (roc_sweep_spec y_test ?scores),
            Some 0 # map (Some \<circ> snd) (roc_sweep_spec y_test ?scores), thresholds)"
    by blast
  then have "config_roc y_test prob threshold =
           Inr ((Some 0, Some 0)
                # map (\<lambda>(f, t). (Some f, Some t)) (roc_sweep_spec y_test ?scores))"
    by (simp add: config_roc_def zip_map_map split_def zip_same_conv_map)
  moreover have "length (roc_sweep_spec y_test ?scores) \<le> 2"
    using few by (simp add: roc_sweep_spec_def)
  ultimately show ?thesis by blast
qed

theorem config_roc_binarized_sweep_witness:
  "config_roc [0, 1, 0, 1] [1/10, 9/10, 6/10, 4/10] (1/2) =
     Inr ((Some 0, Some 0)
          # map (\<lambda>(f, t). (Some f, Some t))
                (roc_sweep_spec [0, 1, 0, 1] (map real_of_int (bc [1/10, 9/10, 6/10, 4/10] (1/2)))))
   \<and> roc_sweep_spec [0, 1, 0, 1] (map real_of_int (bc [1/10, 9/10, 6/10, 4/10] (1/2)))
       = [(1/2, 1/2), (1, 1)]"
proof -
  have a: "length [1/10, 9/10, 6/10, 4/10 :: real] = length [0, 1, 0, 1 :: int]" by simp
  have b: "set [0, 1, 0, 1 :: int] = {0, 1}" by auto
  have "roc_sweep_spec [0, 1, 0, 1] (map real_of_int (bc [1/10, 9/10, 6/10, 4/10] (1/2)))
       = [(1/2, 1/2), (1, 1)]"
    unfolding bc_scenario by code_simp
  with config_roc_binarized_sweep [OF a b, of "1/2"] show ?thesis by simp
qed

text \<open>
  The claim as stated fails: on the batch of the specification's scenario the analysis
  cell plots three points, while the sweep over the four distinct raw probabilities has
  four points (five with the origin).
\<close>

theorem config_roc_not_raw_sweep:
  "config_roc [0, 1, 0, 1] [1/10, 9/10, 6/10, 4/10] (1/2) =
     Inr [(Some 0, Some 0), (Some (1/2), Some (1/2)), (Some 1, Some 1)]
   \<and> roc_sweep_spec [0, 1, 0, 1] [1/10, 9/10, 6/10, 4/10] =
     [(0, 1/2), (1/2, 1/2), (1/2, 1), (1, 1)]
   \<and> config_roc [0, 1, 0, 1] [1/10, 9/10, 6/10, 4/10] (1/2) \<noteq>
     Inr (map (\<lambda>(f, t). (Some f, Some t)) (roc_sweep_spec [0, 1, 0, 1] [1/10, 9/10, 6/10, 4/10]))
   \<and> config_roc [0, 1, 0, 1] [1/10, 9/10, 6/10, 4/10] (1/2) \<noteq>
     Inr ((Some 0, Some 0)
          # map (\<lambda>(f, t). (Some f, Some t)) (roc_sweep_spec [0, 1, 0, 1] [1/10, 9/10, 6/10, 4/10]))"
proof -
  have c: "config_roc [0, 1, 0, 1] [1/10, 9/10, 6/10, 4/10] (1/2) =
     Inr [(Some 0, Some 0), (Some (1/2), Some (1/2)), (Some 1, Some 1)]"
    unfolding config_roc_def bc_scenario by code_simp
  have r: "roc_sweep_spec [0, 1, 0, 1] [1/10, 9/10, 6/10, 4/10] =
     [(0, 1/2), (1/2, 1/2), (1/2, 1), (1, 1)]"
    by code_simp
  show ?thesis unfolding c r by simp
qed

end
